theory Spec2Isabelle
  imports Main
begin

section \<open>The gloss plugin (remarkGloss) as HOL functions\<close>

subsection \<open>Strings and inline content\<close>

text \<open>
  A JavaScript string is a sequence of UTF-16 code units; a code unit is a natural number.
  \<open>js\<close> turns an ASCII literal into such a string.
\<close>

type_synonym jschar = nat
type_synonym jsstring = "jschar list"

definition js :: "string \<Rightarrow> jsstring" where
  "js s = map of_char s"

text \<open>The class \<^verbatim>\<open>\s\<close> of a JavaScript regular expression: white space and line terminators.\<close>

definition is_space :: "jschar \<Rightarrow> bool" where
  "is_space c =
     (c = 9 \<or> c = 10 \<or> c = 11 \<or> c = 12 \<or> c = 13 \<or> c = 32 \<or> c = 160 \<or> c = 5760
      \<or> (8192 \<le> c \<and> c \<le> 8202)
      \<or> c = 8232 \<or> c = 8233 \<or> c = 8239 \<or> c = 8287 \<or> c = 12288 \<or> c = 65279)"

text \<open>
  mdast phrasing content: a text node with its value, a break node, or any other inline
  node (emphasis, link, inline code, ...), which the plugin never looks into.
\<close>

datatype phrasing = Text jsstring | Break | Other nat

type_synonym word = "phrasing list"
type_synonym line = "word list"

text \<open>
  \<open>data\<close> of a node: \<^verbatim>\<open>{ hName, hProperties: { class } }\<close>, each part optional.
\<close>

record hdata =
  hName :: "string option"
  hClass :: "string option"

text \<open>
  The mdast nodes the plugin reads or builds. \<open>ListN ordered spread data children\<close> is a
  list node, \<open>ListItem spread data children\<close> a list item; \<open>OtherNode\<close> is any other
  block node with its children.
\<close>

datatype node =
    Root "node list"
  | Paragraph "hdata option" "phrasing list"
  | ContainerDirective string "hdata option" "node list"
  | ListN bool bool "hdata option" "node list"
  | ListItem "bool option" "hdata option" "node list"
  | OtherNode nat "node list"

text \<open>
  A message of a vfile (reason, the node it is placed at, fatal or not), and what the
  JavaScript can throw: \<^verbatim>\<open>new Error(message)\<close>, a TypeError of the runtime (a property
  read on \<^verbatim>\<open>undefined\<close>), or a message of the vfile.
\<close>

record vfile_message =
  reason :: string
  place :: node
  fatal :: bool

datatype error = Error string | TypeError | VFileMessage vfile_message

definition bindE :: "error + 'a \<Rightarrow> ('a \<Rightarrow> error + 'b) \<Rightarrow> error + 'b" where
  "bindE r f = (case r of Inl e \<Rightarrow> Inl e | Inr x \<Rightarrow> f x)"

subsection \<open>extractLines\<close>

text \<open>
  \<^verbatim>\<open>text.split("\n")\<close>: the pieces between the newline characters (code unit 10);
  \<open>cur\<close> is the piece being read.
\<close>

fun split_at :: "jschar \<Rightarrow> jsstring \<Rightarrow> jsstring \<Rightarrow> jsstring list" where
  "split_at sep cur [] = [cur]"
| "split_at sep cur (c # cs) =
     (if c = sep then cur # split_at sep [] cs else split_at sep (cur @ [c]) cs)"

definition split_newline :: "jsstring \<Rightarrow> jsstring list" where
  "split_newline text = split_at 10 [] text"

text \<open>
  \<^verbatim>\<open>text.split(/(\s+)/)\<close>: the pieces between the maximal runs of white space, with
  each run itself (the capture group) between them. \<open>in_ws\<close> says whether \<open>cur\<close> is a
  run of white space; a text that ends in white space ends with an empty piece.
\<close>

fun split_ws_aux :: "bool \<Rightarrow> jsstring \<Rightarrow> jsstring \<Rightarrow> jsstring list" where
  "split_ws_aux in_ws cur [] = (if in_ws then [cur, []] else [cur])"
| "split_ws_aux in_ws cur (c # cs) =
     (if is_space c = in_ws then split_ws_aux in_ws (cur @ [c]) cs
      else cur # split_ws_aux (is_space c) [c] cs)"

definition split_ws :: "jsstring \<Rightarrow> jsstring list" where
  "split_ws text = split_ws_aux False [] text"

text \<open>\<^verbatim>\<open>/^\s+$/.test(token)\<close>\<close>

definition all_space :: "jsstring \<Rightarrow> bool" where
  "all_space token = (token \<noteq> [] \<and> list_all is_space token)"

text \<open>
  \<^verbatim>\<open>xs.at(-1)\<close> is \<^verbatim>\<open>undefined\<close> on an empty array, and a \<^verbatim>\<open>push\<close> on
  \<^verbatim>\<open>undefined\<close> throws a TypeError.
\<close>

definition at_last :: "'a list \<Rightarrow> 'a option" where
  "at_last xs = (if xs = [] then None else Some (last xs))"

text \<open>\<^verbatim>\<open>lines.push([[]])\<close>\<close>

definition push_line :: "line list \<Rightarrow> line list" where
  "push_line lines = lines @ [[[]]]"

text \<open>\<^verbatim>\<open>lines.at(-1)!.push([])\<close>\<close>

definition push_word :: "line list \<Rightarrow> error + line list" where
  "push_word lines =
     (case at_last lines of
        None \<Rightarrow> Inl TypeError
      | Some l \<Rightarrow> Inr (butlast lines @ [l @ [[]]]))"

text \<open>\<^verbatim>\<open>lines.at(-1)!.at(-1)!.push(n)\<close>\<close>

definition push_node :: "phrasing \<Rightarrow> line list \<Rightarrow> error + line list" where
  "push_node n lines =
     (case at_last lines of
        None \<Rightarrow> Inl TypeError
      | Some l \<Rightarrow>
          (case at_last l of
             None \<Rightarrow> Inl TypeError
           | Some w \<Rightarrow> Inr (butlast lines @ [butlast l @ [w @ [n]]])))"

text \<open>The loop of processTextLine over the tokens.\<close>

fun processTokens :: "jsstring list \<Rightarrow> line list \<Rightarrow> error + line list" where
  "processTokens [] lines = Inr lines"
| "processTokens (token # tokens) lines =
     (if token = [] then processTokens tokens lines
      else if all_space token then bindE (push_word lines) (processTokens tokens)
      else bindE (push_node (Text token) lines) (processTokens tokens))"

definition processTextLine :: "jsstring \<Rightarrow> line list \<Rightarrow> error + line list" where
  "processTextLine text lines = processTokens (split_ws text) lines"

text \<open>The loop of processTextNode: \<open>i\<close> is the index of the first of the text lines left.\<close>

fun processTextLines :: "nat \<Rightarrow> jsstring list \<Rightarrow> line list \<Rightarrow> error + line list" where
  "processTextLines i [] lines = Inr lines"
| "processTextLines i (t # ts) lines =
     bindE (processTextLine t (if i > 0 then push_line lines else lines))
       (processTextLines (Suc i) ts)"

definition processTextNode :: "jsstring \<Rightarrow> line list \<Rightarrow> error + line list" where
  "processTextNode text lines = processTextLines 0 (split_newline text) lines"

text \<open>The loop of extractLines over the children of the paragraph.\<close>

fun extractLoop :: "phrasing list \<Rightarrow> line list \<Rightarrow> error + line list" where
  "extractLoop [] lines = Inr lines"
| "extractLoop (child # children) lines =
     (case child of
        Break \<Rightarrow> extractLoop children (push_line lines)
      | Text v \<Rightarrow> bindE (processTextNode v lines) (extractLoop children)
      | _ \<Rightarrow> bindE (push_node child lines) (extractLoop children))"

text \<open>extractLines, on the children of the paragraph.\<close>

definition extractLines :: "phrasing list \<Rightarrow> error + line list" where
  "extractLines children =
     bindE (extractLoop children [[[]]])
       (\<lambda>lines. Inr (filter (\<lambda>line. length line > 0)
                        (map (filter (\<lambda>word. length word > 0)) lines)))"

subsection \<open>parseLinePrefix\<close>

datatype rowType = TextRow | TransliterationRow | GlossRow

text \<open>The name of a row type, as the source writes it.\<close>

fun rowTypeName :: "rowType \<Rightarrow> string" where
  "rowTypeName TextRow = ''text''"
| "rowTypeName TransliterationRow = ''transliteration''"
| "rowTypeName GlossRow = ''gloss''"

text \<open>
  ParsedLine: \<^verbatim>\<open>{ type: "meta"; content }\<close> or \<^verbatim>\<open>{ type: RowType; words }\<close>.
\<close>

datatype parsedLine = ParsedMeta "phrasing list" | ParsedRow rowType "word list"

text \<open>
  \<^verbatim>\<open>text.match(/^([|/=])\s*/)\<close>: on a match, the marker (group 1) and the whole match
  (the marker and the longest run of white space after it). The code units 124, 47 and
  61 are \<^verbatim>\<open>|\<close>, \<^verbatim>\<open>/\<close> and \<^verbatim>\<open>=\<close>.
\<close>

definition prefixMatch :: "jsstring \<Rightarrow> (jschar \<times> jsstring) option" where
  "prefixMatch text =
     (case text of
        [] \<Rightarrow> None
      | c # cs \<Rightarrow>
          (if c = 124 \<or> c = 47 \<or> c = 61 then Some (c, c # takeWhile is_space cs)
           else None))"

text \<open>
  The loop that builds the content of a meta line: \<open>i\<close> is the index of the first of the
  words left, \<open>content\<close> what has been pushed. Code unit 32 is the space.
\<close>

fun metaContent :: "nat \<Rightarrow> word list \<Rightarrow> phrasing list \<Rightarrow> phrasing list" where
  "metaContent i [] content = content"
| "metaContent i (w # ws) content =
     metaContent (Suc i) ws ((if i > 0 then content @ [Text [32]] else content) @ w)"

definition parseLinePrefix :: "word list \<Rightarrow> parsedLine" where
  "parseLinePrefix words =
     (if length words = 0 then ParsedRow TextRow []
      else
        let firstWord = hd words in
        if length firstWord = 0 then ParsedRow TextRow words
        else
          (case hd firstWord of
             Text text \<Rightarrow>
               (case prefixMatch text of
                  None \<Rightarrow> ParsedRow TextRow words
                | Some (prefix, whole) \<Rightarrow>
                    let remainder = drop (length whole) text;
                        newFirstWord =
                          (if length remainder > 0 then Text remainder # drop 1 firstWord
                           else drop 1 firstWord);
                        newWords =
                          (if length newFirstWord > 0 then newFirstWord # drop 1 words
                           else drop 1 words)
                    in
                      if prefix = 124 then ParsedMeta (metaContent 0 newWords [])
                      else if prefix = 47 then ParsedRow TransliterationRow newWords
                      else if prefix = 61 then ParsedRow GlossRow newWords
                      else ParsedRow TextRow words)
           | _ \<Rightarrow> ParsedRow TextRow words))"

subsection \<open>parseGlossNode\<close>

record glossRow =
  type :: rowType
  words :: "word list"

record gloss =
  header :: "phrasing list option"
  rows :: "glossRow list"
  footer :: "phrasing list option"

text \<open>The local type Line of parseGlossNode.\<close>

datatype glossLine = MetaLine "phrasing list" | RowLine glossRow

fun node_children :: "node \<Rightarrow> node list" where
  "node_children (Root cs) = cs"
| "node_children (Paragraph d ps) = []"
| "node_children (ContainerDirective name d cs) = cs"
| "node_children (ListN ordered spread d cs) = cs"
| "node_children (ListItem spread d cs) = cs"
| "node_children (OtherNode k cs) = cs"

text \<open>The inner loop of the first part: the extracted lines of one paragraph are classified and pushed.\<close>

fun classifyLines :: "line list \<Rightarrow> glossLine list \<Rightarrow> glossLine list" where
  "classifyLines [] lines = lines"
| "classifyLines (l # extractedLines) lines =
     classifyLines extractedLines
       (lines @ [case parseLinePrefix l of
                   ParsedMeta content \<Rightarrow> MetaLine content
                 | ParsedRow t ws \<Rightarrow> RowLine \<lparr>type = t, words = ws\<rparr>])"

text \<open>The outer loop, over the children of the container.\<close>

fun childrenLoop :: "node list \<Rightarrow> glossLine list \<Rightarrow> error + glossLine list" where
  "childrenLoop [] lines = Inr lines"
| "childrenLoop (child # children) lines =
     (case child of
        Paragraph d ps \<Rightarrow>
          bindE (extractLines ps)
            (\<lambda>extractedLines. childrenLoop children (classifyLines extractedLines lines))
      | _ \<Rightarrow> childrenLoop children lines)"

definition structuralMessage :: string where
  "structuralMessage =
     ''Header and footer lines denoted by '' @ [CHR 0x27] @ ''|'' @ [CHR 0x27] @
     '' may only appear at the beginning or end of a gloss block''"

text \<open>
  The second loop, from index \<open>i\<close>, with the header, rows and footer so far. Inside the
  loop \<open>i < length lines\<close>, so \<open>length lines - 1\<close> is the JavaScript difference.
\<close>

function assembleLoop :: "glossLine list \<Rightarrow> nat \<Rightarrow> gloss \<Rightarrow> error + gloss" where
  "assembleLoop lines i g =
     (if i < length lines then
        (case lines ! i of
           MetaLine content \<Rightarrow>
             if i \<noteq> 0 \<and> i \<noteq> length lines - 1 then Inl (Error structuralMessage)
             else if i = 0 then assembleLoop lines (Suc i) (g\<lparr>header := Some content\<rparr>)
             else assembleLoop lines (Suc i) (g\<lparr>footer := Some content\<rparr>)
         | RowLine row \<Rightarrow> assembleLoop lines (Suc i) (g\<lparr>rows := rows g @ [row]\<rparr>))
      else Inr g)"
  by pat_completeness auto
termination
  by (relation "measure (\<lambda>(lines, i, g). length lines - i)") auto

definition parseGlossNode :: "node \<Rightarrow> error + gloss" where
  "parseGlossNode nd =
     bindE (childrenLoop (node_children nd) [])
       (\<lambda>lines. assembleLoop lines 0 \<lparr>header = None, rows = [], footer = None\<rparr>)"

subsection \<open>buildColumns and the output nodes\<close>

record columnWord =
  cw_type :: rowType
  cw_word :: "word option"

text \<open>\<^verbatim>\<open>xs[i]\<close> is \<^verbatim>\<open>undefined\<close> out of range.\<close>

definition index :: "'a list \<Rightarrow> nat \<Rightarrow> 'a option" where
  "index xs i = (if i < length xs then Some (xs ! i) else None)"

definition createColumn :: "columnWord list \<Rightarrow> node" where
  "createColumn ws =
     ListItem None None
       [ListN True False (Some \<lparr>hName = Some ''ol'', hClass = Some ''gloss-column''\<rparr>)
          (map (\<lambda>cw.
                  ListItem (Some False)
                    (Some \<lparr>hName = None,
                           hClass = Some (''gloss-word gloss-word-'' @ rowTypeName (cw_type cw))\<rparr>)
                    (case cw_word cw of
                       None \<Rightarrow> []
                     | Some w \<Rightarrow> if length w > 0 then [Paragraph None w] else []))
             ws)]"

text \<open>\<^verbatim>\<open>Math.max(0, ...rows.map((row) => row.words.length))\<close>\<close>

definition numColumns :: "glossRow list \<Rightarrow> nat" where
  "numColumns rs = fold max (map (\<lambda>row. length (words row)) rs) 0"

text \<open>The argument of createColumn for column \<open>col\<close>.\<close>

definition columnWords :: "glossRow list \<Rightarrow> nat \<Rightarrow> columnWord list" where
  "columnWords rs col =
     map (\<lambda>row. \<lparr>cw_type = type row, cw_word = index (words row) col\<rparr>) rs"

definition buildColumns :: "glossRow list \<Rightarrow> node list" where
  "buildColumns rs = map (\<lambda>col. createColumn (columnWords rs col)) [0..<numColumns rs]"

definition createHeader :: "phrasing list \<Rightarrow> node" where
  "createHeader content =
     Paragraph (Some \<lparr>hName = Some ''figcaption'', hClass = Some ''gloss-header''\<rparr>) content"

definition createWordGrid :: "node list \<Rightarrow> node" where
  "createWordGrid columns =
     ListN True False (Some \<lparr>hName = Some ''ol'', hClass = Some ''gloss-body''\<rparr>) columns"

definition createFooter :: "phrasing list \<Rightarrow> node" where
  "createFooter content =
     Paragraph (Some \<lparr>hName = Some ''p'', hClass = Some ''gloss-footer''\<rparr>) content"

subsection \<open>remarkGloss\<close>

text \<open>
  The vfile is its list of messages. \<^verbatim>\<open>file.fail(reason, node)\<close> belongs to the vfile
  library, not to this repository, so it is a parameter of the transform: given the reason,
  the node and the file it returns the file afterwards and what it throws, if anything.
\<close>

type_synonym vfile = "vfile_message list"
type_synonym failfn = "string \<Rightarrow> node \<Rightarrow> vfile \<Rightarrow> error option \<times> vfile"

text \<open>
  \<^verbatim>\<open>file.fail\<close> as the vfile library documents it: it adds a fatal message placed at the
  node to the file and throws that message.
\<close>

definition vfile_fail :: failfn where
  "vfile_fail r nd file =
     (let m = \<lparr>reason = r, place = nd, fatal = True\<rparr> in (Some (VFileMessage m), file @ [m]))"

text \<open>A \<^verbatim>\<open>fail\<close> that would only record a warning and return.\<close>

definition returning_fail :: failfn where
  "returning_fail r nd file = (None, file @ [\<lparr>reason = r, place = nd, fatal = False\<rparr>])"

text \<open>\<^verbatim>\<open>(error as Error).message\<close>\<close>

fun message :: "error \<Rightarrow> string" where
  "message (Error m) = m"
| "message TypeError = ''Cannot read properties of undefined''"
| "message (VFileMessage m) = reason m"

text \<open>
  The visitor of remarkGloss on a container directive with name \<open>name\<close>, data \<open>d\<close> and
  children \<open>cs\<close>. The result is what was thrown (if anything), the node afterwards and the
  file afterwards. When parseGlossNode throws and \<^verbatim>\<open>file.fail\<close> returns, \<open>parseResult\<close>
  is still unassigned and destructuring it throws a TypeError.
\<close>

definition glossVisitor ::
  "failfn \<Rightarrow> string \<Rightarrow> hdata option \<Rightarrow> node list \<Rightarrow> vfile \<Rightarrow> error option \<times> node \<times> vfile" where
  "glossVisitor fail name d cs file =
     (if name \<noteq> ''gloss'' then (None, ContainerDirective name d cs, file)
      else
        (case parseGlossNode (ContainerDirective name d cs) of
           Inl err \<Rightarrow>
             (case fail (message err) (ContainerDirective name d cs) file of
                (Some thrown, file') \<Rightarrow> (Some thrown, ContainerDirective name d cs, file')
              | (None, file') \<Rightarrow> (Some TypeError, ContainerDirective name d cs, file'))
         | Inr parseResult \<Rightarrow>
             let columns = buildColumns (rows parseResult) in
             (None,
              ContainerDirective name (Some \<lparr>hName = Some ''figure'', hClass = Some ''gloss''\<rparr>)
                ((case header parseResult of None \<Rightarrow> [] | Some h \<Rightarrow> [createHeader h]) @
                 (if length columns > 0 then [createWordGrid columns] else []) @
                 (case footer parseResult of None \<Rightarrow> [] | Some f \<Rightarrow> [createFooter f])),
              file)))"

text \<open>
  \<^verbatim>\<open>visit(tree, "containerDirective", visitor)\<close> of unist-util-visit: the nodes in
  preorder, the visitor called on each container directive, then its children visited.
  The tree is changed in place, so when the visitor throws the traversal stops with the
  tree as it is at that moment. The children that the visitor gives a gloss node hold no
  container directive, so visiting them changes nothing and the model does not descend
  into them.
\<close>

fun visitNode :: "failfn \<Rightarrow> node \<Rightarrow> vfile \<Rightarrow> error option \<times> node \<times> vfile"
  and visitChildren :: "failfn \<Rightarrow> node list \<Rightarrow> vfile \<Rightarrow> error option \<times> node list \<times> vfile" where
  "visitNode fail (Root cs) file =
     (case visitChildren fail cs file of (e, cs', file') \<Rightarrow> (e, Root cs', file'))"
| "visitNode fail (Paragraph d ps) file = (None, Paragraph d ps, file)"
| "visitNode fail (ContainerDirective name d cs) file =
     (if name = ''gloss'' then glossVisitor fail name d cs file
      else
        (case visitChildren fail cs file of
           (e, cs', file') \<Rightarrow> (e, ContainerDirective name d cs', file')))"
| "visitNode fail (ListN ordered spread d cs) file =
     (case visitChildren fail cs file of (e, cs', file') \<Rightarrow> (e, ListN ordered spread d cs', file'))"
| "visitNode fail (ListItem spread d cs) file =
     (case visitChildren fail cs file of (e, cs', file') \<Rightarrow> (e, ListItem spread d cs', file'))"
| "visitNode fail (OtherNode k cs) file =
     (case visitChildren fail cs file of (e, cs', file') \<Rightarrow> (e, OtherNode k cs', file'))"
| "visitChildren fail [] file = (None, [], file)"
| "visitChildren fail (c # cs) file =
     (case visitNode fail c file of
        (Some e, c', file') \<Rightarrow> (Some e, c' # cs, file')
      | (None, c', file') \<Rightarrow>
          (case visitChildren fail cs file' of (e, cs', file'') \<Rightarrow> (e, c' # cs', file'')))"

definition remarkGloss :: "failfn \<Rightarrow> node \<Rightarrow> vfile \<Rightarrow> error option \<times> node \<times> vfile" where
  "remarkGloss fail tree file = visitNode fail tree file"

subsection \<open>The specification's notions\<close>

text \<open>
  The specification's words for the content of a meta line: the spans of the words in one
  sequence, with one space span between adjacent words.
\<close>

fun joinWithSpaces :: "word list \<Rightarrow> phrasing list" where
  "joinWithSpaces [] = []"
| "joinWithSpaces [w] = w"
| "joinWithSpaces (w # w' # ws) = w @ [Text [32]] @ joinWithSpaces (w' # ws)"

text \<open>
  The specification's words for stripping a marker: \<open>remainder\<close> is the text of the first
  span after the marker and the white space that follows it, \<open>rest\<close> the other spans of
  the first word, \<open>ws\<close> the later words. The span is dropped when its text is empty, and
  the word when it has no span left.
\<close>

definition strippedWords :: "jsstring \<Rightarrow> phrasing list \<Rightarrow> word list \<Rightarrow> word list" where
  "strippedWords remainder rest ws =
     (if remainder \<noteq> [] then (Text remainder # rest) # ws
      else if rest \<noteq> [] then rest # ws
      else ws)"

text \<open>The meta lines and the rows of a sequence of classified lines.\<close>

fun isMeta :: "glossLine \<Rightarrow> bool" where
  "isMeta (MetaLine content) = True"
| "isMeta (RowLine row) = False"

fun rowsOf :: "glossLine list \<Rightarrow> glossRow list" where
  "rowsOf [] = []"
| "rowsOf (MetaLine content # ls) = rowsOf ls"
| "rowsOf (RowLine row # ls) = row # rowsOf ls"

text \<open>The content of the line at index \<open>i\<close> when that line is a meta line.\<close>

definition metaAt :: "glossLine list \<Rightarrow> nat \<Rightarrow> phrasing list option" where
  "metaAt lines i =
     (if i < length lines then
        (case lines ! i of MetaLine content \<Rightarrow> Some content | RowLine row \<Rightarrow> None)
      else None)"

text \<open>
  The specification's words for what a text contributes: its maximal runs of characters
  that are not white space, in order. \<open>cur\<close> is the run being read.
\<close>

fun runs :: "jsstring \<Rightarrow> jsstring \<Rightarrow> jsstring list" where
  "runs cur [] = (if cur = [] then [] else [cur])"
| "runs cur (c # cs) =
     (if is_space c then (if cur = [] then runs [] cs else cur # runs [] cs)
      else runs (cur @ [c]) cs)"

definition nonspaceRuns :: "jsstring \<Rightarrow> jsstring list" where
  "nonspaceRuns text = runs [] text"

text \<open>
  The spans that a child of the paragraph contributes: a text its runs, each as a text
  span; a break nothing; any other node itself.
\<close>

fun spansOf :: "phrasing \<Rightarrow> phrasing list" where
  "spansOf (Text v) = map Text (nonspaceRuns v)"
| "spansOf Break = []"
| "spansOf (Other k) = [Other k]"

text \<open>
  The state of extractLines has an open word when it has a last line and that line has a
  last word; \<open>flat\<close> is the spans of a state in order.
\<close>

definition openWord :: "line list \<Rightarrow> bool" where
  "openWord lines = (lines \<noteq> [] \<and> last lines \<noteq> [])"

definition flat :: "line list \<Rightarrow> phrasing list" where
  "flat lines = concat (concat lines)"

text \<open>The text spans that the loop of processTextLine pushes for a list of tokens.\<close>

definition emitted :: "jsstring list \<Rightarrow> phrasing list" where
  "emitted tokens = map Text (filter (\<lambda>token. token \<noteq> [] \<and> \<not> all_space token) tokens)"

text \<open>\<^verbatim>\<open>child.type === "paragraph"\<close>\<close>

fun isParagraph :: "node \<Rightarrow> bool" where
  "isParagraph (Paragraph d ps) = True"
| "isParagraph other = False"

subsection \<open>Positions in the document\<close>

text \<open>
  A node of the document is given by the nodes around it: from the root inwards, for each
  enclosing node what kind of node it is (\<open>wrapper\<close>), the siblings before and the
  siblings after on that level. \<open>plug\<close> puts a node at that position.
\<close>

datatype wrapper =
    WRoot
  | WContainer string "hdata option"
  | WList bool bool "hdata option"
  | WItem "bool option" "hdata option"
  | WOther nat

fun wrap :: "wrapper \<Rightarrow> node list \<Rightarrow> node" where
  "wrap WRoot cs = Root cs"
| "wrap (WContainer name d) cs = ContainerDirective name d cs"
| "wrap (WList ordered spread d) cs = ListN ordered spread d cs"
| "wrap (WItem spread d) cs = ListItem spread d cs"
| "wrap (WOther k) cs = OtherNode k cs"

datatype frame =
  Frame (frameWrapper: wrapper) (frameBefore: "node list") (frameAfter: "node list")

fun plug :: "frame list \<Rightarrow> node \<Rightarrow> node" where
  "plug [] nd = nd"
| "plug (Frame w before after # fs) nd = wrap w (before @ plug fs nd # after)"

text \<open>
  The traversal reaches the children of every node but a gloss block, whose children the
  visitor replaces.
\<close>

fun traversedWrapper :: "wrapper \<Rightarrow> bool" where
  "traversedWrapper (WContainer name d) = (name \<noteq> ''gloss'')"
| "traversedWrapper w = True"

definition traversedFrame :: "frame \<Rightarrow> bool" where
  "traversedFrame f = traversedWrapper (frameWrapper f)"

text \<open>
  The nodes before a position, visited in the order of the document: level by level from
  the root inwards, the siblings before. The result is none when one of these visits
  throws, and otherwise the frames with the siblings before as the visits leave them (the
  siblings after untouched) and the file afterwards.
\<close>

fun visitBefore :: "failfn \<Rightarrow> frame list \<Rightarrow> vfile \<Rightarrow> (frame list \<times> vfile) option" where
  "visitBefore fail [] file = Some ([], file)"
| "visitBefore fail (Frame w before after # fs) file =
     (case visitChildren fail before file of
        (Some e, before', file1) \<Rightarrow> None
      | (None, before', file1) \<Rightarrow>
          (case visitBefore fail fs file1 of
             None \<Rightarrow> None
           | Some (fs', file2) \<Rightarrow> Some (Frame w before' after # fs', file2)))"

subsection \<open>The scenarios of the specification\<close>

text \<open>Scenario b: the lines \<^verbatim>\<open>The dog runs\<close> and \<^verbatim>\<open>= the dog\<close>, as rows.\<close>

definition scenarioRows :: "glossRow list" where
  "scenarioRows =
     [\<lparr>type = TextRow, words = [[Text (js ''The'')], [Text (js ''dog'')], [Text (js ''runs'')]]\<rparr>,
      \<lparr>type = GlossRow, words = [[Text (js ''the'')], [Text (js ''dog'')]]\<rparr>]"

text \<open>Rows that hold an empty word next to a row with no word at all.\<close>

definition emptyWordRows :: "glossRow list" where
  "emptyWordRows = [\<lparr>type = TextRow, words = [[]]\<rparr>, \<lparr>type = GlossRow, words = []\<rparr>]"

text \<open>A caption, and two rows, as classified lines.\<close>

definition captionA :: "phrasing list" where
  "captionA = [Text (js ''A''), Text [32], Text (js ''caption'')]"

definition captionB :: "phrasing list" where
  "captionB = [Text (js ''trailing'')]"

definition rowA :: glossRow where
  "rowA = \<lparr>type = TextRow, words = [[Text (js ''The'')], [Text (js ''dog'')]]\<rparr>"

definition rowB :: glossRow where
  "rowB = \<lparr>type = GlossRow, words = [[Text (js ''a'')]]\<rparr>"

text \<open>
  The children of a paragraph: a caption line, a line with a rich node inside, an explicit
  break, a line read from a text with newlines, and two lines of white space only.
\<close>

definition scenarioParagraph :: "phrasing list" where
  "scenarioParagraph =
     [Text (js ''| A caption'' @ [10] @ js ''The ''), Other 1, Text (js '' dog''), Break,
      Text (js ''= the  dog'' @ [10, 32, 10])]"

subsection \<open>Example documents\<close>

text \<open>
  A gloss block with a meta line at index 1 of 3, one with a meta line at index 2 of 4,
  and a well-formed block with a caption and one row.
\<close>

definition badBlock :: node where
  "badBlock =
     ContainerDirective ''gloss'' None
       [Paragraph None
          [Text (js ''The dog'' @ [10] @ js ''| misplaced'' @ [10] @ js ''= a'')]]"

definition badBlock2 :: node where
  "badBlock2 =
     ContainerDirective ''gloss'' None
       [Paragraph None
          [Text (js ''The dog'' @ [10] @ js ''/ le'' @ [10] @ js ''| misplaced'' @ [10] @ js ''= a'')]]"

definition goodBlock :: node where
  "goodBlock =
     ContainerDirective ''gloss'' None
       [Paragraph None [Text (js ''| A caption'' @ [10] @ js ''The dog'')]]"

text \<open>What the visitor makes of the well-formed block.\<close>

definition goodFigure :: node where
  "goodFigure =
     ContainerDirective ''gloss'' (Some \<lparr>hName = Some ''figure'', hClass = Some ''gloss''\<rparr>)
       [createHeader [Text (js ''A''), Text [32], Text (js ''caption'')],
        createWordGrid
          [createColumn [\<lparr>cw_type = TextRow, cw_word = Some [Text (js ''The'')]\<rparr>],
           createColumn [\<lparr>cw_type = TextRow, cw_word = Some [Text (js ''dog'')]\<rparr>]]]"

text \<open>The message that \<^verbatim>\<open>file.fail\<close> of vfile records for a block.\<close>

definition structuralFailure :: "node \<Rightarrow> vfile_message" where
  "structuralFailure nd = \<lparr>reason = structuralMessage, place = nd, fatal = True\<rparr>"

section \<open>Properties\<close>

declare assembleLoop.simps [simp del]

subsection \<open>The assembler\<close>

lemma rowsOf_drop:
  "i < length lines \<Longrightarrow>
   rowsOf (drop i lines) =
     (case lines ! i of MetaLine c \<Rightarrow> rowsOf (drop (Suc i) lines)
      | RowLine r \<Rightarrow> r # rowsOf (drop (Suc i) lines))"
  by (simp add: Cons_nth_drop_Suc [symmetric] split: glossLine.splits)

text \<open>A meta line that is neither first nor last, at or after index \<open>i\<close>, makes the loop throw.\<close>

lemma assembleLoop_error:
  "\<exists>j. i \<le> j \<and> j < length lines \<and> isMeta (lines ! j) \<and> j \<noteq> 0 \<and> j \<noteq> length lines - 1 \<Longrightarrow>
   assembleLoop lines i g = Inl (Error structuralMessage)"
proof (induction lines i g rule: assembleLoop.induct)
  case (1 lines i g)
  from "1.prems" obtain j where j: "i \<le> j" "j < length lines" "isMeta (lines ! j)"
    "j \<noteq> 0" "j \<noteq> length lines - 1" by blast
  then have lt: "i < length lines" by simp
  show ?case
  proof (cases "lines ! i")
    case (MetaLine content)
    show ?thesis
    proof (cases "i \<noteq> 0 \<and> i \<noteq> length lines - 1")
      case True
      then show ?thesis using lt MetaLine by (subst assembleLoop.simps) simp
    next
      case False
      then have "i \<noteq> j" using j by auto
      then have ex: "\<exists>j. Suc i \<le> j \<and> j < length lines \<and> isMeta (lines ! j) \<and> j \<noteq> 0 \<and> j \<noteq> length lines - 1"
        using j by (intro exI [of _ j]) simp
      show ?thesis
      proof (cases "i = 0")
        case True
        then show ?thesis
          using "1.IH"(1) [OF lt MetaLine _ True ex] lt MetaLine False
          by (subst assembleLoop.simps) simp
      next
        case F2: False
        then show ?thesis
          using "1.IH"(2) [OF lt MetaLine _ F2 ex] lt MetaLine False
          by (subst assembleLoop.simps) simp
      qed
    qed
  next
    case (RowLine row)
    then have "i \<noteq> j" using j by auto
    then have ex: "\<exists>j. Suc i \<le> j \<and> j < length lines \<and> isMeta (lines ! j) \<and> j \<noteq> 0 \<and> j \<noteq> length lines - 1"
      using j by (intro exI [of _ j]) simp
    show ?thesis
      using "1.IH"(3) [OF lt RowLine ex] lt RowLine
      by (subst assembleLoop.simps) simp
  qed
qed

text \<open>Without such a line the loop ends, with the state described from \<open>i\<close> on.\<close>

lemma assembleLoop_ok:
  "\<forall>j. i \<le> j \<and> j < length lines \<and> isMeta (lines ! j) \<longrightarrow> j = 0 \<or> j = length lines - 1 \<Longrightarrow>
   assembleLoop lines i g =
     Inr (g\<lparr>header := (if i = 0 then (case metaAt lines 0 of Some c \<Rightarrow> Some c | None \<Rightarrow> header g)
                       else header g),
            rows := rows g @ rowsOf (drop i lines),
            footer := (if i < length lines \<and> 1 < length lines
                       then (case metaAt lines (length lines - 1) of
                               Some c \<Rightarrow> Some c | None \<Rightarrow> footer g)
                       else footer g)\<rparr>)"
proof (induction lines i g rule: assembleLoop.induct)
  case (1 lines i g)
  show ?case
  proof (cases "i < length lines")
    case False
    then show ?thesis by (subst assembleLoop.simps) (auto simp: metaAt_def)
  next
    case lt: True
    have nxt: "\<forall>j. Suc i \<le> j \<and> j < length lines \<and> isMeta (lines ! j) \<longrightarrow> j = 0 \<or> j = length lines - 1"
    proof (intro allI impI)
      fix j assume "Suc i \<le> j \<and> j < length lines \<and> isMeta (lines ! j)"
      then have "i \<le> j \<and> j < length lines \<and> isMeta (lines ! j)" by simp
      then show "j = 0 \<or> j = length lines - 1" using "1.prems" by blast
    qed
    show ?thesis
    proof (cases "lines ! i")
      case (MetaLine content)
      then have ends: "i = 0 \<or> i = length lines - 1"
        using "1.prems" lt by auto
      have step: "rowsOf (drop i lines) = rowsOf (drop (Suc i) lines)"
        using rowsOf_drop [OF lt] MetaLine by simp
      have ni: "\<not> (i \<noteq> 0 \<and> i \<noteq> length lines - 1)" using ends by simp
      show ?thesis
      proof (cases "i = 0")
        case True
        have "assembleLoop lines i g = assembleLoop lines (Suc i) (g\<lparr>header := Some content\<rparr>)"
          using lt MetaLine True by (subst assembleLoop.simps) simp
        also note "1.IH"(1) [OF lt MetaLine ni True nxt]
        finally show ?thesis
          using lt MetaLine True step
          by (auto simp: metaAt_def split: option.splits glossLine.splits)
      next
        case False
        have il: "i = length lines - 1" using ends False by simp
        have "assembleLoop lines i g = assembleLoop lines (Suc i) (g\<lparr>footer := Some content\<rparr>)"
          using lt MetaLine False ni by (subst assembleLoop.simps) simp
        also note "1.IH"(2) [OF lt MetaLine ni False nxt]
        finally show ?thesis
          using lt MetaLine False il step
          by (auto simp: metaAt_def split: option.splits glossLine.splits)
      qed
    next
      case (RowLine row)
      have last_or: "Suc i < length lines \<or> i = length lines - 1" using lt by auto
      have step: "rowsOf (drop i lines) = row # rowsOf (drop (Suc i) lines)"
        using rowsOf_drop [OF lt] RowLine by simp
      have "assembleLoop lines i g = assembleLoop lines (Suc i) (g\<lparr>rows := rows g @ [row]\<rparr>)"
        using lt RowLine by (subst assembleLoop.simps) simp
      also note "1.IH"(3) [OF lt RowLine nxt]
      finally show ?thesis
        using lt RowLine step last_or
        by (auto simp: metaAt_def split: option.splits glossLine.splits)
    qed
  qed
qed

text \<open>
  Claim C2. Let \<open>n\<close> be the number of classified lines. If some meta line stands at an
  index \<open>j\<close> with \<open>0 < j < n - 1\<close>, the assembler throws the structural error. Otherwise
  it returns a gloss whose header is the content of line 0 when that line is a meta line
  (and absent otherwise), whose footer is the content of line \<open>n - 1\<close> when \<open>n > 1\<close> and
  that line is a meta line (and absent otherwise, so a single meta line is the header and
  leaves the footer absent), and whose rows are the lines that are not meta lines, in
  their order, each with its type and words.
\<close>

theorem assemble_placement:
  "((\<exists>j. 0 < j \<and> j + 1 < length lines \<and> isMeta (lines ! j)) \<longrightarrow>
      assembleLoop lines 0 \<lparr>header = None, rows = [], footer = None\<rparr> =
        Inl (Error structuralMessage)) \<and>
   (\<not> (\<exists>j. 0 < j \<and> j + 1 < length lines \<and> isMeta (lines ! j)) \<longrightarrow>
      assembleLoop lines 0 \<lparr>header = None, rows = [], footer = None\<rparr> =
        Inr \<lparr>header = metaAt lines 0,
             rows = rowsOf lines,
             footer = (if 1 < length lines then metaAt lines (length lines - 1) else None)\<rparr>)"
proof (intro conjI impI)
  assume "\<exists>j. 0 < j \<and> j + 1 < length lines \<and> isMeta (lines ! j)"
  then obtain j where "0 < j" "j + 1 < length lines" "isMeta (lines ! j)" by blast
  then have "\<exists>j. 0 \<le> j \<and> j < length lines \<and> isMeta (lines ! j) \<and> j \<noteq> 0 \<and> j \<noteq> length lines - 1"
    by (intro exI [of _ j]) auto
  then show "assembleLoop lines 0 \<lparr>header = None, rows = [], footer = None\<rparr> =
        Inl (Error structuralMessage)"
    by (rule assembleLoop_error)
next
  assume no: "\<not> (\<exists>j. 0 < j \<and> j + 1 < length lines \<and> isMeta (lines ! j))"
  have "\<forall>j. 0 \<le> j \<and> j < length lines \<and> isMeta (lines ! j) \<longrightarrow> j = 0 \<or> j = length lines - 1"
  proof (intro allI impI)
    fix j assume a: "0 \<le> j \<and> j < length lines \<and> isMeta (lines ! j)"
    show "j = 0 \<or> j = length lines - 1"
    proof (rule ccontr)
      assume "\<not> (j = 0 \<or> j = length lines - 1)"
      then have "0 < j \<and> j + 1 < length lines \<and> isMeta (lines ! j)" using a by auto
      then show False using no by blast
    qed
  qed
  from assembleLoop_ok [OF this, of "\<lparr>header = None, rows = [], footer = None\<rparr>"]
  show "assembleLoop lines 0 \<lparr>header = None, rows = [], footer = None\<rparr> =
        Inr \<lparr>header = metaAt lines 0,
             rows = rowsOf lines,
             footer = (if 1 < length lines then metaAt lines (length lines - 1) else None)\<rparr>"
    by (auto simp: metaAt_def split: option.splits glossLine.splits)
qed

theorem assemble_placement_witness:
  "assembleLoop [MetaLine captionA, RowLine rowA, MetaLine captionB, RowLine rowB] 0
     \<lparr>header = None, rows = [], footer = None\<rparr> = Inl (Error structuralMessage) \<and>
   assembleLoop [MetaLine captionA, RowLine rowA, RowLine rowB, MetaLine captionB] 0
     \<lparr>header = None, rows = [], footer = None\<rparr> =
     Inr \<lparr>header = Some captionA, rows = [rowA, rowB], footer = Some captionB\<rparr> \<and>
   assembleLoop [MetaLine captionA] 0 \<lparr>header = None, rows = [], footer = None\<rparr> =
     Inr \<lparr>header = Some captionA, rows = [], footer = None\<rparr>"
proof -
  let ?bad = "[MetaLine captionA, RowLine rowA, MetaLine captionB, RowLine rowB]"
  let ?good = "[MetaLine captionA, RowLine rowA, RowLine rowB, MetaLine captionB]"
  let ?one = "[MetaLine captionA]"
  have bad: "\<exists>j. 0 < j \<and> j + 1 < length ?bad \<and> isMeta (?bad ! j)"
    by (rule exI [of _ 2]) simp
  have good: "\<not> (\<exists>j. 0 < j \<and> j + 1 < length ?good \<and> isMeta (?good ! j))"
  proof
    assume "\<exists>j. 0 < j \<and> j + 1 < length ?good \<and> isMeta (?good ! j)"
    then obtain j where j: "0 < j" "j + 1 < length ?good" "isMeta (?good ! j)" by blast
    then have "j = 1 \<or> j = 2" by auto
    then show False using j(3) by auto
  qed
  have one: "\<not> (\<exists>j. 0 < j \<and> j + 1 < length ?one \<and> isMeta (?one ! j))"
    by simp
  show ?thesis
    using assemble_placement [of ?bad] assemble_placement [of ?good] assemble_placement [of ?one]
      bad good one
    by (simp add: metaAt_def)
qed

subsection \<open>The columns\<close>

lemma fold_max_Max: "fold max xs (a::nat) = Max (set (a # xs))"
  by (rule Max.set_eq_fold [symmetric])

lemma numColumns_Max:
  "numColumns rs = (if rs = [] then 0 else Max (set (map (\<lambda>row. length (words row)) rs)))"
proof (cases "rs = []")
  case True
  then show ?thesis by (simp add: numColumns_def)
next
  case False
  let ?S = "set (map (\<lambda>row. length (words row)) rs)"
  have fin: "finite ?S" and ne: "?S \<noteq> {}" using False by auto
  have "numColumns rs = Max (insert 0 ?S)"
    unfolding numColumns_def fold_max_Max by simp
  also have "\<dots> = max 0 (Max ?S)" using fin ne by (rule Max_insert)
  also have "\<dots> = Max ?S" by simp
  finally show ?thesis using False by simp
qed

lemma buildColumns_nth:
  "j < numColumns rs \<Longrightarrow> buildColumns rs ! j = createColumn (columnWords rs j)"
  by (simp add: buildColumns_def)

lemma columnWords_nth:
  "i < length rs \<Longrightarrow>
     columnWords rs j ! i =
       \<lparr>cw_type = type (rs ! i),
        cw_word = (if j < length (words (rs ! i)) then Some (words (rs ! i) ! j) else None)\<rparr>"
  by (simp add: columnWords_def index_def)

text \<open>
  Claim C3. buildColumns is a total function of the row list (rows of different lengths
  raise nothing). Column \<open>j\<close> is createColumn of a cell list with one cell per row, in
  the order of the rows; the cell of row \<open>i\<close> has the type of that row and the word
  \<open>words ! j\<close> of that row when \<open>j\<close> is less than the row's number of words, and no word
  otherwise. So a cell has no word exactly when the column index is at least the row's
  number of words, and a cell that holds an empty word is not such a cell.
\<close>

theorem buildColumns_cells:
  "length (buildColumns rs) = numColumns rs \<and>
   (\<forall>j < numColumns rs.
      buildColumns rs ! j = createColumn (columnWords rs j) \<and>
      length (columnWords rs j) = length rs \<and>
      (\<forall>i < length rs.
         cw_type (columnWords rs j ! i) = type (rs ! i) \<and>
         cw_word (columnWords rs j ! i) =
           (if j < length (words (rs ! i)) then Some (words (rs ! i) ! j) else None) \<and>
         (cw_word (columnWords rs j ! i) = None \<longleftrightarrow> length (words (rs ! i)) \<le> j) \<and>
         (j < length (words (rs ! i)) \<and> words (rs ! i) ! j = [] \<longrightarrow>
            cw_word (columnWords rs j ! i) = Some [])))"
proof -
  have len: "length (buildColumns rs) = numColumns rs"
    by (simp add: buildColumns_def)
  have cl: "length (columnWords rs j) = length rs" for j
    by (simp add: columnWords_def)
  show ?thesis
    using len cl by (simp add: buildColumns_nth columnWords_nth)
qed

theorem buildColumns_cells_witness:
  "(2::nat) < numColumns scenarioRows \<and> (1::nat) < length scenarioRows \<and>
   length (buildColumns scenarioRows) = 3 \<and>
   buildColumns scenarioRows ! 2 = createColumn (columnWords scenarioRows 2) \<and>
   columnWords scenarioRows 2 =
     [\<lparr>cw_type = TextRow, cw_word = Some [Text (js ''runs'')]\<rparr>,
      \<lparr>cw_type = GlossRow, cw_word = None\<rparr>] \<and>
   words (emptyWordRows ! 0) ! 0 = [] \<and>
   columnWords emptyWordRows 0 =
     [\<lparr>cw_type = TextRow, cw_word = Some []\<rparr>, \<lparr>cw_type = GlossRow, cw_word = None\<rparr>]"
  using buildColumns_cells [of scenarioRows] buildColumns_cells [of emptyWordRows]
  by (simp add: numColumns_def scenarioRows_def emptyWordRows_def columnWords_def index_def)

text \<open>
  Claim C4. The number of columns that buildColumns returns is the greatest number of
  words of a row, and 0 when there is no row.
\<close>

theorem buildColumns_count:
  "length (buildColumns rs) =
     (if rs = [] then 0 else Max (set (map (\<lambda>row. length (words row)) rs)))"
  by (simp add: buildColumns_def numColumns_Max)

theorem buildColumns_count_witness:
  "length (buildColumns scenarioRows) = 3 \<and> length (buildColumns []) = 0"
  using buildColumns_count [of scenarioRows] buildColumns_count [of "[]"]
  by (simp add: scenarioRows_def)

subsection \<open>The classifier\<close>

lemma metaContent_Suc:
  "metaContent (Suc i) ws content = content @ concat (map (\<lambda>w. Text [32] # w) ws)"
  by (induction ws arbitrary: i content) simp_all

lemma joinWithSpaces_Cons:
  "joinWithSpaces (w # ws) = w @ concat (map (\<lambda>w. Text [32] # w) ws)"
  by (induction ws arbitrary: w) simp_all

lemma metaContent_0: "metaContent 0 ws [] = joinWithSpaces ws"
proof (cases ws)
  case Nil
  then show ?thesis by simp
next
  case (Cons w ws')
  have "metaContent 0 (w # ws') [] = metaContent (Suc 0) ws' w" by simp
  then show ?thesis
    unfolding Cons metaContent_Suc joinWithSpaces_Cons by simp
qed

lemma joinWithSpaces_length:
  "length (joinWithSpaces ws) = sum_list (map length ws) + (length ws - 1)"
proof (cases ws)
  case Nil
  then show ?thesis by simp
next
  case (Cons w ws')
  have "length (concat (map (\<lambda>w. Text [32] # w) ws')) = sum_list (map length ws') + length ws'"
    by (induction ws') simp_all
  then show ?thesis unfolding Cons joinWithSpaces_Cons by simp
qed

lemma parseLinePrefix_marker:
  assumes "c = 124 \<or> c = 47 \<or> c = 61"
  shows "parseLinePrefix ((Text (c # cs) # rest) # ws) =
     (let nw = strippedWords (dropWhile is_space cs) rest ws in
      if c = 124 then ParsedMeta (joinWithSpaces nw)
      else if c = 47 then ParsedRow TransliterationRow nw
      else ParsedRow GlossRow nw)"
  using assms
  by (auto simp: parseLinePrefix_def prefixMatch_def strippedWords_def Let_def
      metaContent_0 dropWhile_eq_drop [symmetric])

lemma parseLinePrefix_nomarker:
  "c \<noteq> 124 \<Longrightarrow> c \<noteq> 47 \<Longrightarrow> c \<noteq> 61 \<Longrightarrow>
   parseLinePrefix ((Text (c # cs) # rest) # ws) = ParsedRow TextRow ((Text (c # cs) # rest) # ws)"
  by (simp add: parseLinePrefix_def prefixMatch_def)

lemma parseLinePrefix_plain:
  "parseLinePrefix [] = ParsedRow TextRow []"
  "parseLinePrefix ([] # ws) = ParsedRow TextRow ([] # ws)"
  "parseLinePrefix ((Break # rest) # ws) = ParsedRow TextRow ((Break # rest) # ws)"
  "parseLinePrefix ((Other k # rest) # ws) = ParsedRow TextRow ((Other k # rest) # ws)"
  "parseLinePrefix ((Text [] # rest) # ws) = ParsedRow TextRow ((Text [] # rest) # ws)"
  by (simp_all add: parseLinePrefix_def prefixMatch_def)

text \<open>Every line has one of the shapes of the lemmas above.\<close>

lemma line_shapes:
  obtains "ln = []"
  | ws where "ln = [] # ws"
  | rest ws where "ln = (Break # rest) # ws"
  | k rest ws where "ln = (Other k # rest) # ws"
  | rest ws where "ln = (Text [] # rest) # ws"
  | c cs rest ws where "ln = (Text (c # cs) # rest) # ws" "c \<noteq> 124" "c \<noteq> 47" "c \<noteq> 61"
  | c cs rest ws where "ln = (Text (c # cs) # rest) # ws" "c = 124 \<or> c = 47 \<or> c = 61"
proof (cases ln)
  case Nil
  then show ?thesis using that(1) by simp
next
  case (Cons w ws)
  show ?thesis
  proof (cases w)
    case Nil
    then show ?thesis using Cons that(2) by simp
  next
    case inner: (Cons n rest)
    show ?thesis
    proof (cases n)
      case (Text v)
      show ?thesis
      proof (cases v)
        case Nil
        then show ?thesis using Cons inner Text that(5) by simp
      next
        case vc: (Cons c cs)
        show ?thesis
        proof (cases "c = 124 \<or> c = 47 \<or> c = 61")
          case True
          then show ?thesis using Cons inner Text vc that(7) by simp
        next
          case False
          then show ?thesis using Cons inner Text vc that(6) by simp
        qed
      qed
    next
      case Break
      then show ?thesis using Cons inner that(3) by simp
    next
      case (Other k)
      then show ?thesis using Cons inner that(4) by simp
    qed
  qed
qed

text \<open>
  Claim C5. parseLinePrefix returns the type text with the words unchanged for a line
  with no word, for a line whose first word is empty, for a line whose first span is not
  a text node, and for a line whose first span is a text that does not start with
  \<^verbatim>\<open>|\<close> (124), \<^verbatim>\<open>/\<close> (47) or \<^verbatim>\<open>=\<close> (61). When the text starts with one
  of the three, the marker and the white space after it are stripped from the span, the
  span is dropped when nothing is left of its text, the word is dropped when it has no
  span left, and the later words stay as they are (\<open>strippedWords\<close>); \<^verbatim>\<open>|\<close> gives a
  meta line, \<^verbatim>\<open>/\<close> a transliteration row and \<^verbatim>\<open>=\<close> a gloss row. The line that
  is only \<^verbatim>\<open>=\<close> gives a gloss row with no word.
\<close>

theorem parseLinePrefix_cases:
  "parseLinePrefix [] = ParsedRow TextRow [] \<and>
   parseLinePrefix ([] # ws) = ParsedRow TextRow ([] # ws) \<and>
   parseLinePrefix ((Break # rest) # ws) = ParsedRow TextRow ((Break # rest) # ws) \<and>
   parseLinePrefix ((Other k # rest) # ws) = ParsedRow TextRow ((Other k # rest) # ws) \<and>
   parseLinePrefix ((Text [] # rest) # ws) = ParsedRow TextRow ((Text [] # rest) # ws) \<and>
   (c \<noteq> 124 \<and> c \<noteq> 47 \<and> c \<noteq> 61 \<longrightarrow>
      parseLinePrefix ((Text (c # cs) # rest) # ws) =
        ParsedRow TextRow ((Text (c # cs) # rest) # ws)) \<and>
   parseLinePrefix ((Text (124 # cs) # rest) # ws) =
     ParsedMeta (joinWithSpaces (strippedWords (dropWhile is_space cs) rest ws)) \<and>
   parseLinePrefix ((Text (47 # cs) # rest) # ws) =
     ParsedRow TransliterationRow (strippedWords (dropWhile is_space cs) rest ws) \<and>
   parseLinePrefix ((Text (61 # cs) # rest) # ws) =
     ParsedRow GlossRow (strippedWords (dropWhile is_space cs) rest ws) \<and>
   parseLinePrefix [[Text [61]]] = ParsedRow GlossRow []"
proof -
  have m: "parseLinePrefix ((Text (124 # cs) # rest) # ws) =
     ParsedMeta (joinWithSpaces (strippedWords (dropWhile is_space cs) rest ws))"
    by (simp add: parseLinePrefix_marker)
  have t: "parseLinePrefix ((Text (47 # cs) # rest) # ws) =
     ParsedRow TransliterationRow (strippedWords (dropWhile is_space cs) rest ws)"
    by (simp add: parseLinePrefix_marker)
  have g: "parseLinePrefix ((Text (61 # cs) # rest) # ws) =
     ParsedRow GlossRow (strippedWords (dropWhile is_space cs) rest ws)" for cs rest ws
    by (simp add: parseLinePrefix_marker)
  have e: "parseLinePrefix [[Text [61]]] = ParsedRow GlossRow []"
    using g [of "[]" "[]" "[]"] by (simp add: strippedWords_def)
  show ?thesis
    using m t g e by (simp add: parseLinePrefix_plain parseLinePrefix_nomarker)
qed

theorem parseLinePrefix_cases_witness:
  "parseLinePrefix [[Text (js ''='')]] = ParsedRow GlossRow [] \<and>
   parseLinePrefix [[Text (js ''/le'')], [Text (js ''chien'')]] =
     ParsedRow TransliterationRow [[Text (js ''le'')], [Text (js ''chien'')]] \<and>
   parseLinePrefix [[Text (js ''= ''), Other 1], [Text (js ''dog'')]] =
     ParsedRow GlossRow [[Other 1], [Text (js ''dog'')]] \<and>
   parseLinePrefix [[Text (js ''|''), Other 1], [Text (js ''caption'')]] =
     ParsedMeta [Other 1, Text (js '' ''), Text (js ''caption'')] \<and>
   parseLinePrefix [[Text (js ''The'')], [Text (js ''dog'')]] =
     ParsedRow TextRow [[Text (js ''The'')], [Text (js ''dog'')]]"
  using parseLinePrefix_cases [of "[]" "[]" 0 84 "js ''he''" ]
    parseLinePrefix_cases [of "[[Text (js ''dog'')]]" "[]" 0 84 "js ''he''" ]
    parseLinePrefix_cases [of "[[Text (js ''chien'')]]" "[]" 0 84 "js ''le''" ]
    parseLinePrefix_cases [of "[[Text (js ''dog'')]]" "[Other 1]" 0 84 "js '' ''" ]
    parseLinePrefix_cases [of "[[Text (js ''caption'')]]" "[Other 1]" 0 84 "[]" ]
  by (simp add: js_def strippedWords_def is_space_def)

text \<open>
  Claim C9. When parseLinePrefix classifies a line as meta, the line starts with a text
  span that starts with \<^verbatim>\<open>|\<close>, and the content returned is the spans of the
  remaining words in one sequence with one space span (the text of code unit 32) between
  adjacent words and none at either end: \<open>joinWithSpaces\<close>, whose length is the number
  of spans of the words plus the number of words minus one. For the other types the
  result keeps a list of words: the words of the line, or the remaining words after the
  marker was stripped.
\<close>

theorem meta_content_flattened:
  "(parseLinePrefix ln = ParsedMeta content \<longrightarrow>
      (\<exists>cs rest ws. ln = (Text (124 # cs) # rest) # ws \<and>
         content = joinWithSpaces (strippedWords (dropWhile is_space cs) rest ws))) \<and>
   joinWithSpaces [] = [] \<and>
   joinWithSpaces [w] = w \<and>
   joinWithSpaces (w # w' # ws') = w @ [Text [32]] @ joinWithSpaces (w' # ws') \<and>
   length (joinWithSpaces ws') = sum_list (map length ws') + (length ws' - 1) \<and>
   (parseLinePrefix ln = ParsedRow t nw \<longrightarrow>
      nw = ln \<or>
      (\<exists>c cs rest ws. ln = (Text (c # cs) # rest) # ws \<and>
         nw = strippedWords (dropWhile is_space cs) rest ws))"
proof -
  have a: "\<exists>cs rest ws. ln = (Text (124 # cs) # rest) # ws \<and>
         content = joinWithSpaces (strippedWords (dropWhile is_space cs) rest ws)"
    if "parseLinePrefix ln = ParsedMeta content"
    using that
    by (cases ln rule: line_shapes)
      (auto simp: parseLinePrefix_plain parseLinePrefix_nomarker parseLinePrefix_marker)
  have b: "nw = ln \<or>
      (\<exists>c cs rest ws. ln = (Text (c # cs) # rest) # ws \<and>
         nw = strippedWords (dropWhile is_space cs) rest ws)"
    if "parseLinePrefix ln = ParsedRow t nw"
    using that
    by (cases ln rule: line_shapes)
      (auto simp: parseLinePrefix_plain parseLinePrefix_nomarker parseLinePrefix_marker)
  show ?thesis using a b by (simp add: joinWithSpaces_length)
qed

theorem meta_content_flattened_witness:
  "parseLinePrefix [[Text (js ''|''), Other 1], [Text (js ''caption'')], [Other 2]] =
     ParsedMeta [Other 1, Text (js '' ''), Text (js ''caption''), Text (js '' ''), Other 2] \<and>
   (\<exists>cs rest ws. [[Text (js ''|''), Other 1], [Text (js ''caption'')], [Other 2]] = (Text (124 # cs) # rest) # ws \<and>
      [Other 1, Text (js '' ''), Text (js ''caption''), Text (js '' ''), Other 2] =
        joinWithSpaces (strippedWords (dropWhile is_space cs) rest ws)) \<and>
   parseLinePrefix [[Text (js ''/le'')], [Text (js ''chien'')]] =
     ParsedRow TransliterationRow [[Text (js ''le'')], [Text (js ''chien'')]] \<and>
   (\<exists>c cs rest ws. [[Text (js ''/le'')], [Text (js ''chien'')]] = (Text (c # cs) # rest) # ws \<and>
      [[Text (js ''le'')], [Text (js ''chien'')]] = strippedWords (dropWhile is_space cs) rest ws)"
proof -
  have p: "parseLinePrefix [[Text (js ''|''), Other 1], [Text (js ''caption'')], [Other 2]] =
     ParsedMeta [Other 1, Text (js '' ''), Text (js ''caption''), Text (js '' ''), Other 2]"
    by (simp add: parseLinePrefix_def prefixMatch_def js_def)
  have q: "parseLinePrefix [[Text (js ''/le'')], [Text (js ''chien'')]] =
     ParsedRow TransliterationRow [[Text (js ''le'')], [Text (js ''chien'')]]"
    by (simp add: parseLinePrefix_def prefixMatch_def js_def is_space_def)
  have ne: "[[Text (js ''le'')], [Text (js ''chien'')]] \<noteq> [[Text (js ''/le'')], [Text (js ''chien'')]]"
    by (simp add: js_def)
  show ?thesis
    using p q ne
      meta_content_flattened [of "[[Text (js ''|''), Other 1], [Text (js ''caption'')], [Other 2]]"
        "[Other 1, Text (js '' ''), Text (js ''caption''), Text (js '' ''), Other 2]"]
      meta_content_flattened [of "[[Text (js ''/le'')], [Text (js ''chien'')]]" _ _ _ _
        TransliterationRow "[[Text (js ''le'')], [Text (js ''chien'')]]"]
    by simp
qed

subsection \<open>Results that may be errors\<close>

lemma bindE_simps [simp]:
  "bindE (Inl e) f = Inl e"
  "bindE (Inr x) f = f x"
  by (simp_all add: bindE_def)

lemma bindE_Inr [simp]: "bindE r Inr = r"
  by (cases r) simp_all

lemma bindE_assoc: "bindE (bindE r f) g = bindE r (\<lambda>x. bindE (f x) g)"
  by (cases r) simp_all

subsection \<open>The state of extractLines\<close>

lemma openWord_push_line [simp]: "openWord (push_line ls)"
  by (simp add: openWord_def push_line_def)

lemma flat_push_line [simp]: "flat (push_line ls) = flat ls"
  by (simp add: flat_def push_line_def)

lemma flat_last:
  "ls \<noteq> [] \<Longrightarrow> flat (butlast ls @ [l]) = flat (butlast ls) @ concat l"
  by (simp add: flat_def)

lemma flat_split: "ls \<noteq> [] \<Longrightarrow> flat ls = flat (butlast ls) @ concat (last ls)"
  using flat_last [of ls "last ls"] by simp

lemma push_word_ok:
  "openWord ls \<Longrightarrow> \<exists>ls'. push_word ls = Inr ls' \<and> openWord ls' \<and> flat ls' = flat ls"
  by (simp add: openWord_def push_word_def at_last_def flat_last flat_split [of ls])

lemma push_node_ok:
  "openWord ls \<Longrightarrow> \<exists>ls'. push_node n ls = Inr ls' \<and> openWord ls' \<and> flat ls' = flat ls @ [n]"
proof -
  assume ow: "openWord ls"
  then have ne: "ls \<noteq> []" "last ls \<noteq> []" by (simp_all add: openWord_def)
  have "concat (butlast (last ls) @ [last (last ls) @ [n]]) = concat (last ls) @ [n]"
    using ne(2) by (metis append_butlast_last_id concat_append concat.simps append_Nil2 append_assoc)
  then show ?thesis
    using ne by (simp add: openWord_def push_node_def at_last_def flat_last flat_split [of ls])
qed


subsection \<open>Tokens and text lines\<close>

lemma emitted_simps [simp]:
  "emitted [] = []"
  "emitted (ts @ us) = emitted ts @ emitted us"
  by (simp_all add: emitted_def)

lemma emitted_Cons:
  "emitted (t # ts) = (if t \<noteq> [] \<and> \<not> all_space t then Text t # emitted ts else emitted ts)"
  by (simp add: emitted_def)

lemma processTokens_ok:
  "openWord ls \<Longrightarrow>
   \<exists>ls'. processTokens ts ls = Inr ls' \<and> openWord ls' \<and> flat ls' = flat ls @ emitted ts"
proof (induction ts arbitrary: ls)
  case Nil
  then show ?case by simp
next
  case (Cons t ts)
  show ?case
  proof (cases "t = []")
    case True
    then show ?thesis using Cons.IH [OF Cons.prems] by (simp add: emitted_Cons)
  next
    case ne: False
    show ?thesis
    proof (cases "all_space t")
      case True
      from push_word_ok [OF Cons.prems] obtain l1 where
        l1: "push_word ls = Inr l1" "openWord l1" "flat l1 = flat ls" by blast
      from Cons.IH [OF l1(2)] show ?thesis using ne True l1 by (simp add: emitted_Cons)
    next
      case False
      from push_node_ok [OF Cons.prems, of "Text t"] obtain l1 where
        l1: "push_node (Text t) ls = Inr l1" "openWord l1" "flat l1 = flat ls @ [Text t]" by blast
      from Cons.IH [OF l1(2)] show ?thesis using ne False l1 by (simp add: emitted_Cons)
    qed
  qed
qed

lemma processTextLines_ok:
  "openWord ls \<Longrightarrow>
   \<exists>ls'. processTextLines i ts ls = Inr ls' \<and> openWord ls' \<and>
         flat ls' = flat ls @ emitted (concat (map split_ws ts))"
proof (induction ts arbitrary: i ls)
  case Nil
  then show ?case by simp
next
  case (Cons t ts)
  let ?l0 = "if i > 0 then push_line ls else ls"
  have ow: "openWord ?l0" using Cons.prems by simp
  have fl: "flat ?l0 = flat ls" by simp
  from processTokens_ok [OF ow, of "split_ws t"] obtain l1 where
    l1: "processTextLine t ?l0 = Inr l1" "openWord l1" "flat l1 = flat ls @ emitted (split_ws t)"
    unfolding processTextLine_def fl by blast
  from Cons.IH [OF l1(2), of "Suc i"] show ?case using l1 by simp
qed

lemma processTextNode_ok:
  "openWord ls \<Longrightarrow>
   \<exists>ls'. processTextNode v ls = Inr ls' \<and> openWord ls' \<and>
         flat ls' = flat ls @ emitted (concat (map split_ws (split_newline v)))"
  unfolding processTextNode_def by (rule processTextLines_ok)

subsection \<open>Tokens are the runs that are not white space\<close>

lemma emitted_split_ws_False:
  "\<not> list_ex is_space cur \<Longrightarrow> emitted (split_ws_aux False cur s) = map Text (runs cur s)"
  and emitted_split_ws_True:
  "cur \<noteq> [] \<Longrightarrow> list_all is_space cur \<Longrightarrow> emitted (split_ws_aux True cur s) = map Text (runs [] s)"
proof (induction s arbitrary: cur)
  case Nil
  {
    case 1
    then show ?case by (cases cur) (auto simp: emitted_Cons all_space_def list_ex_iff list_all_iff)
  next
    case 2
    then show ?case by (simp add: emitted_Cons all_space_def)
  }
next
  case (Cons c s)
  {
    case 1
    show ?case
    proof (cases "is_space c")
      case True
      have "emitted (split_ws_aux True [c] s) = map Text (runs [] s)"
        using Cons(2) [of "[c]"] True by simp
      moreover have "cur \<noteq> [] \<Longrightarrow> \<not> all_space cur"
        using 1 by (auto simp: all_space_def list_ex_iff list_all_iff neq_Nil_conv)
      ultimately show ?thesis using True by (simp add: emitted_Cons)
    next
      case False
      have "\<not> list_ex is_space (cur @ [c])" using 1 False by simp
      from Cons(1) [OF this] show ?thesis using False by simp
    qed
  next
    case 2
    show ?case
    proof (cases "is_space c")
      case True
      have "cur @ [c] \<noteq> []" "list_all is_space (cur @ [c])" using 2 True by simp_all
      from Cons(2) [OF this] show ?thesis using True by simp
    next
      case False
      have "\<not> list_ex is_space [c]" using False by simp
      from Cons(1) [OF this] have "emitted (split_ws_aux False [c] s) = map Text (runs [c] s)" .
      moreover have "all_space cur" using 2 by (simp add: all_space_def)
      ultimately show ?thesis using False 2 by (simp add: emitted_Cons)
    qed
  }
qed

lemma emitted_split_ws: "emitted (split_ws s) = map Text (runs [] s)"
  unfolding split_ws_def by (rule emitted_split_ws_False) simp


lemma runs_append_space:
  "is_space c \<Longrightarrow> runs r (a @ c # b) = runs r a @ runs [] b"
  by (induction a arbitrary: r) simp_all

lemma runs_split_at:
  "concat (map (runs []) (split_at 10 cur s)) = runs [] (cur @ s)"
proof (induction s arbitrary: cur)
  case Nil
  then show ?case by simp
next
  case (Cons c s)
  show ?case
  proof (cases "c = 10")
    case True
    have sp: "is_space c" using True by (simp add: is_space_def)
    show ?thesis using True Cons [of "[]"] runs_append_space [OF sp, of "[]" cur s] by simp
  next
    case False
    then show ?thesis using Cons [of "cur @ [c]"] by simp
  qed
qed

lemma emitted_concat:
  "emitted (concat (map split_ws ps)) = map Text (concat (map (runs []) ps))"
  by (induction ps) (simp_all add: emitted_split_ws)

lemma emitted_text: "emitted (concat (map split_ws (split_newline v))) = spansOf (Text v)"
  by (simp add: emitted_concat split_newline_def runs_split_at nonspaceRuns_def)

lemma runs_concat: "concat (runs cur s) = cur @ filter (\<lambda>c. \<not> is_space c) s"
  by (induction s arbitrary: cur) simp_all

lemma runs_clean:
  "\<not> list_ex is_space cur \<Longrightarrow> t \<in> set (runs cur s) \<Longrightarrow> t \<noteq> [] \<and> \<not> list_ex is_space t"
proof (induction s arbitrary: cur)
  case Nil
  then show ?case by (auto split: if_splits)
next
  case (Cons c s)
  show ?case
  proof (cases "is_space c")
    case True
    then have "t = cur \<and> cur \<noteq> [] \<or> t \<in> set (runs [] s)"
      using Cons.prems(2) by (auto split: if_splits)
    then show ?thesis using Cons.IH [of "[]"] Cons.prems(1) by auto
  next
    case False
    then have "t \<in> set (runs (cur @ [c]) s)" using Cons.prems(2) by simp
    moreover have "\<not> list_ex is_space (cur @ [c])" using False Cons.prems(1) by simp
    ultimately show ?thesis using Cons.IH by blast
  qed
qed

subsection \<open>The loop of extractLines\<close>

lemma extractLoop_ok:
  "openWord ls \<Longrightarrow>
   \<exists>ls'. extractLoop cs ls = Inr ls' \<and> openWord ls' \<and> flat ls' = flat ls @ concat (map spansOf cs)"
proof (induction cs arbitrary: ls)
  case Nil
  then show ?case by simp
next
  case (Cons c cs)
  show ?case
  proof (cases c)
    case (Text v)
    from processTextNode_ok [OF Cons.prems, of v] obtain l1 where
      l1: "processTextNode v ls = Inr l1" "openWord l1" "flat l1 = flat ls @ spansOf (Text v)"
      unfolding emitted_text by blast
    from Cons.IH [OF l1(2)] show ?thesis using Text l1 by simp
  next
    case Break
    have "openWord (push_line ls)" by simp
    from Cons.IH [OF this] show ?thesis using Break by simp
  next
    case (Other k)
    from push_node_ok [OF Cons.prems, of c] obtain l1 where
      l1: "push_node c ls = Inr l1" "openWord l1" "flat l1 = flat ls @ [c]" by blast
    from Cons.IH [OF l1(2)] show ?thesis using Other l1 by simp
  qed
qed

lemma concat_drop_empty: "concat (filter (\<lambda>x. x \<noteq> []) xs) = concat xs"
  by (induction xs) simp_all

lemma flat_cleaned:
  "concat (concat (filter (\<lambda>line. line \<noteq> []) (map (filter (\<lambda>word. word \<noteq> [])) ls)))
     = flat ls"
proof -
  have "concat (concat (map (filter (\<lambda>word. word \<noteq> [])) ls)) = concat (concat ls)"
    by (induction ls) (simp_all add: concat_drop_empty)
  then show ?thesis by (simp add: concat_drop_empty flat_def)
qed

lemma extractLines_ok:
  "\<exists>ls. extractLines cs = Inr ls \<and> (\<forall>l \<in> set ls. l \<noteq> [] \<and> (\<forall>w \<in> set l. w \<noteq> [])) \<and>
        concat (concat ls) = concat (map spansOf cs)"
proof -
  have "openWord [[[]]]" by (simp add: openWord_def)
  from extractLoop_ok [OF this, of cs] obtain raw where
    raw: "extractLoop cs [[[]]] = Inr raw" "flat raw = flat [[[]]] @ concat (map spansOf cs)"
    by blast
  have fl: "flat [[[]]] = []" by (simp add: flat_def)
  show ?thesis
    unfolding extractLines_def raw(1) using raw(2) fl
    by (auto simp: flat_cleaned)
qed

subsection \<open>Lines and words are non-empty and in source order\<close>

lemma parseLinePrefix_nonempty:
  "\<forall>w \<in> set ln. w \<noteq> [] \<Longrightarrow> parseLinePrefix ln = ParsedRow t ws \<Longrightarrow> \<forall>w \<in> set ws. w \<noteq> []"
  by (cases ln rule: line_shapes)
    (auto simp: parseLinePrefix_plain parseLinePrefix_nomarker parseLinePrefix_marker
      strippedWords_def Let_def split: if_splits)

text \<open>
  Claim C7. extractLines returns (it never throws), and in its result every line is
  non-empty and every word of every line is non-empty. The spans of the result, read line
  by line and word by word, are the spans that the children contribute, in the order of
  the children: for a text its runs of characters that are not white space (each run
  non-empty and free of white space, together the text without its white space), nothing
  for a break, and any other node itself. parseLinePrefix keeps this: on a line whose
  words are all non-empty, so on every line of extractLines, the words of the row it
  returns are all non-empty.
\<close>

theorem extractLines_nonempty_in_order:
  "(\<exists>ls. extractLines cs = Inr ls \<and>
      (\<forall>l \<in> set ls. l \<noteq> [] \<and> (\<forall>w \<in> set l. w \<noteq> []) \<and>
         (\<forall>t ws. parseLinePrefix l = ParsedRow t ws \<longrightarrow> (\<forall>w \<in> set ws. w \<noteq> []))) \<and>
      concat (concat ls) = concat (map spansOf cs)) \<and>
   ((\<forall>w \<in> set ln. w \<noteq> []) \<and> parseLinePrefix ln = ParsedRow t ws \<longrightarrow> (\<forall>w \<in> set ws. w \<noteq> [])) \<and>
   concat (nonspaceRuns v) = filter (\<lambda>c. \<not> is_space c) v \<and>
   (\<forall>r \<in> set (nonspaceRuns v). r \<noteq> [] \<and> \<not> list_ex is_space r)"
proof -
  from extractLines_ok [of cs] obtain ls where
    ls: "extractLines cs = Inr ls" "\<forall>l \<in> set ls. l \<noteq> [] \<and> (\<forall>w \<in> set l. w \<noteq> [])"
      "concat (concat ls) = concat (map spansOf cs)" by blast
  have "\<forall>l \<in> set ls. \<forall>t ws. parseLinePrefix l = ParsedRow t ws \<longrightarrow> (\<forall>w \<in> set ws. w \<noteq> [])"
    using ls(2) parseLinePrefix_nonempty by blast
  then have a: "\<exists>ls. extractLines cs = Inr ls \<and>
      (\<forall>l \<in> set ls. l \<noteq> [] \<and> (\<forall>w \<in> set l. w \<noteq> []) \<and>
         (\<forall>t ws. parseLinePrefix l = ParsedRow t ws \<longrightarrow> (\<forall>w \<in> set ws. w \<noteq> []))) \<and>
      concat (concat ls) = concat (map spansOf cs)"
    using ls by blast
  have b: "(\<forall>w \<in> set ln. w \<noteq> []) \<and> parseLinePrefix ln = ParsedRow t ws \<longrightarrow> (\<forall>w \<in> set ws. w \<noteq> [])"
    using parseLinePrefix_nonempty [of ln t ws] by blast
  have c: "concat (nonspaceRuns v) = filter (\<lambda>c. \<not> is_space c) v"
    by (simp add: nonspaceRuns_def runs_concat)
  have d: "\<forall>r \<in> set (nonspaceRuns v). r \<noteq> [] \<and> \<not> list_ex is_space r"
    unfolding nonspaceRuns_def using runs_clean [of "[]" _ v] by simp
  show ?thesis using a b c d by blast
qed

text \<open>The definitions that evaluate extractLines on given children.\<close>

lemmas extract_defs =
  extractLines_def processTextNode_def split_newline_def processTextLine_def split_ws_def
  is_space_def all_space_def bindE_def push_node_def push_word_def push_line_def at_last_def

theorem extractLines_nonempty_in_order_witness:
  "extractLines scenarioParagraph =
     Inr [[[Text (js ''|'')], [Text (js ''A'')], [Text (js ''caption'')]],
          [[Text (js ''The'')], [Other 1], [Text (js ''dog'')]],
          [[Text (js ''='')], [Text (js ''the'')], [Text (js ''dog'')]]] \<and>
   concat (map spansOf scenarioParagraph) =
     [Text (js ''|''), Text (js ''A''), Text (js ''caption''), Text (js ''The''), Other 1,
      Text (js ''dog''), Text (js ''=''), Text (js ''the''), Text (js ''dog'')] \<and>
   parseLinePrefix [[Text (js ''='')], [Text (js ''the'')], [Text (js ''dog'')]] =
     ParsedRow GlossRow [[Text (js ''the'')], [Text (js ''dog'')]]"
proof -
  have e: "extractLines scenarioParagraph =
     Inr [[[Text (js ''|'')], [Text (js ''A'')], [Text (js ''caption'')]],
          [[Text (js ''The'')], [Other 1], [Text (js ''dog'')]],
          [[Text (js ''='')], [Text (js ''the'')], [Text (js ''dog'')]]]"
    by (simp add: scenarioParagraph_def js_def extract_defs)
  have p: "parseLinePrefix [[Text (js ''='')], [Text (js ''the'')], [Text (js ''dog'')]] =
     ParsedRow GlossRow [[Text (js ''the'')], [Text (js ''dog'')]]"
    by (simp add: parseLinePrefix_def prefixMatch_def js_def)
  show ?thesis
    using e p extractLines_nonempty_in_order [of scenarioParagraph
        "[[Text (js ''='')], [Text (js ''the'')], [Text (js ''dog'')]]" GlossRow
        "[[Text (js ''the'')], [Text (js ''dog'')]]" "[]"]
    by (auto simp: js_def)
qed

subsection \<open>Breaks and newlines\<close>

lemma bindE_cong:
  "(\<And>x. r = Inr x \<Longrightarrow> f x = g x) \<Longrightarrow> bindE r f = bindE r g"
  by (cases r) simp_all

lemma split_at_append:
  "split_at sep cur (a @ sep # b) = split_at sep cur a @ split_at sep [] b"
  by (induction a arbitrary: cur) simp_all

lemma split_at_nonempty: "split_at sep cur s \<noteq> []"
  by (induction s arbitrary: cur) simp_all

lemma processTextLines_append:
  "processTextLines i (ts @ us) ls =
     bindE (processTextLines i ts ls) (processTextLines (i + length ts) us)"
  by (induction ts arbitrary: i ls) (auto simp: bindE_assoc intro!: bindE_cong)

lemma processTextLines_Suc:
  "processTextLines (Suc j) xs l = processTextLines (Suc k) xs l"
proof (induction xs arbitrary: j k l)
  case Nil
  then show ?case by simp
next
  case (Cons a xs)
  show ?case by simp (rule bindE_cong, rule Cons.IH)
qed

lemma processTextLines_later:
  "0 < i \<Longrightarrow> us \<noteq> [] \<Longrightarrow> processTextLines i us ls = processTextLines 0 us (push_line ls)"
proof (cases us)
  case Nil
  assume "us \<noteq> []" with Nil show ?thesis by simp
next
  case (Cons u us')
  assume i: "0 < i"
  then obtain i' where i': "i = Suc i'" by (cases i) simp_all
  show ?thesis unfolding Cons i' by simp (rule bindE_cong, rule processTextLines_Suc)
qed

lemma processTextNode_newline:
  "processTextNode (a @ 10 # b) ls =
     bindE (processTextNode a ls) (\<lambda>l1. processTextNode b (push_line l1))"
proof -
  have len: "0 < 0 + length (split_at 10 [] a)"
    using split_at_nonempty [of 10 "[]" a] by simp
  show ?thesis
    unfolding processTextNode_def split_newline_def split_at_append processTextLines_append
    by (intro bindE_cong processTextLines_later [OF len split_at_nonempty])
qed

lemma processTextNode_empty [simp]: "processTextNode [] ls = Inr ls"
  by (simp add: processTextNode_def split_newline_def processTextLine_def split_ws_def)

lemma extractLoop_append:
  "extractLoop (xs @ ys) ls = bindE (extractLoop xs ls) (extractLoop ys)"
proof (induction xs arbitrary: ls)
  case Nil
  then show ?case by simp
next
  case (Cons c xs)
  then show ?case by (cases c) (auto simp: bindE_assoc intro!: bindE_cong)
qed

lemma extractLoop_text_break_text:
  "extractLoop [Text (a @ 10 # b)] ls = extractLoop [Text a, Break, Text b] ls"
  by (auto simp: processTextNode_newline bindE_assoc intro!: bindE_cong)

lemma extractLoop_empty_text: "extractLoop (Text [] # cs) ls = extractLoop cs ls"
  by simp

lemma extractLines_cong:
  "(\<And>ls. extractLoop us ls = extractLoop vs ls) \<Longrightarrow>
   extractLines (xs @ us @ ys) = extractLines (xs @ vs @ ys)"
  by (simp add: extractLines_def extractLoop_append bindE_assoc)

text \<open>
  Claim C8. A break node and a newline character in a text start a new line alike: for
  all children before and after, extractLines gives the same result for a break node and
  for the text that is one newline, and for a text, a break and a text (either text
  possibly missing) and the one text that joins them with a newline.
\<close>

theorem break_newline_equivalent:
  "extractLines (xs @ [Break] @ ys) = extractLines (xs @ [Text [10]] @ ys) \<and>
   extractLines (xs @ [Text a, Break, Text b] @ ys) = extractLines (xs @ [Text (a @ [10] @ b)] @ ys) \<and>
   extractLines (xs @ [Text a, Break] @ ys) = extractLines (xs @ [Text (a @ [10])] @ ys) \<and>
   extractLines (xs @ [Break, Text b] @ ys) = extractLines (xs @ [Text (10 # b)] @ ys)"
proof -
  have n: "extractLoop [Text (a @ 10 # b)] ls = extractLoop [Text a, Break, Text b] ls" for a b ls
    by (rule extractLoop_text_break_text)
  have 1: "extractLoop [Break] ls = extractLoop [Text [10]] ls" for ls
    using n [of "[]" "[]" ls] by simp
  have 2: "extractLoop [Text a, Break, Text b] ls = extractLoop [Text (a @ [10] @ b)] ls" for ls
    using n [of a b ls] by simp
  have 3: "extractLoop [Text a, Break] ls = extractLoop [Text (a @ [10])] ls" for ls
    using n [of a "[]" ls] by (cases "processTextNode a ls") simp_all
  have 4: "extractLoop [Break, Text b] ls = extractLoop [Text (10 # b)] ls" for ls
    using n [of "[]" b ls] by simp
  show ?thesis
    using extractLines_cong [of "[Break]" "[Text [10]]", OF 1]
      extractLines_cong [of "[Text a, Break, Text b]" "[Text (a @ [10] @ b)]", OF 2]
      extractLines_cong [of "[Text a, Break]" "[Text (a @ [10])]", OF 3]
      extractLines_cong [of "[Break, Text b]" "[Text (10 # b)]", OF 4]
    by blast
qed

theorem break_newline_equivalent_witness:
  "extractLines ([Other 1] @ [Text (js ''a b''), Break, Text (js ''c'')] @ [Other 2]) =
     Inr [[[Other 1, Text (js ''a'')], [Text (js ''b'')]], [[Text (js ''c''), Other 2]]] \<and>
   extractLines ([Other 1] @ [Text (js ''a b'' @ [10] @ js ''c'')] @ [Other 2]) =
     Inr [[[Other 1, Text (js ''a'')], [Text (js ''b'')]], [[Text (js ''c''), Other 2]]]"
proof -
  have e: "extractLines ([Other 1] @ [Text (js ''a b''), Break, Text (js ''c'')] @ [Other 2]) =
     Inr [[[Other 1, Text (js ''a'')], [Text (js ''b'')]], [[Text (js ''c''), Other 2]]]"
    by (simp add: js_def extract_defs)
  show ?thesis
    using e break_newline_equivalent [of "[Other 1]" "[Other 2]" "js ''a b''" "js ''c''"]
    by simp
qed

subsection \<open>The container and the transform\<close>

text \<open>The definitions that evaluate parseGlossNode and buildColumns on a given block.\<close>

lemmas gloss_defs =
  parseGlossNode_def parseLinePrefix_def prefixMatch_def buildColumns_def numColumns_def
  columnWords_def index_def


subsection \<open>Children of the container\<close>

lemma childrenLoop_skip:
  "\<not> isParagraph c \<Longrightarrow> childrenLoop (c # cs) ls = childrenLoop cs ls"
  by (cases c) simp_all

lemma childrenLoop_append:
  "childrenLoop (xs @ ys) ls = bindE (childrenLoop xs ls) (childrenLoop ys)"
proof (induction xs arbitrary: ls)
  case Nil
  then show ?case by simp
next
  case (Cons c xs)
  then show ?case by (cases c) (auto simp: bindE_assoc intro!: bindE_cong)
qed

lemma childrenLoop_filter:
  "childrenLoop (filter isParagraph cs) ls = childrenLoop cs ls"
proof (induction cs arbitrary: ls)
  case Nil
  then show ?case by simp
next
  case (Cons c cs)
  then show ?case by (cases c) (auto intro!: bindE_cong)
qed

lemma childrenLoop_total: "\<exists>lines. childrenLoop cs ls = Inr lines"
proof (induction cs arbitrary: ls)
  case Nil
  then show ?case by simp
next
  case (Cons c cs)
  show ?case
  proof (cases c)
    case (Paragraph d ps)
    from extractLines_ok [of ps] obtain ex where "extractLines ps = Inr ex" by blast
    then show ?thesis using Paragraph Cons [of "classifyLines ex ls"] by simp
  qed (use Cons in simp_all)
qed

text \<open>
  Claim C10. Only the children of the container that are paragraphs contribute: a child
  of any other type can be removed from the children without changing the result of
  parseGlossNode, a container whose only child is such a node gives the gloss with no
  header, no row and no footer (and no error), and in general parseGlossNode gives the
  same result on the children and on the paragraphs among them.
\<close>

theorem only_paragraphs_contribute:
  "(\<not> isParagraph c \<longrightarrow>
      parseGlossNode (ContainerDirective name d (xs @ [c] @ ys)) =
        parseGlossNode (ContainerDirective name d (xs @ ys)) \<and>
      parseGlossNode (ContainerDirective name d [c]) =
        Inr \<lparr>header = None, rows = [], footer = None\<rparr>) \<and>
   parseGlossNode (ContainerDirective name d cs) =
     parseGlossNode (ContainerDirective name d (filter isParagraph cs))"
proof -
  have a: "parseGlossNode (ContainerDirective name d (xs @ [c] @ ys)) =
        parseGlossNode (ContainerDirective name d (xs @ ys))" if "\<not> isParagraph c"
  proof -
    have "childrenLoop (c # ys) = childrenLoop ys"
      using that by (intro ext) (rule childrenLoop_skip)
    then show ?thesis by (simp add: parseGlossNode_def childrenLoop_append)
  qed
  have b: "parseGlossNode (ContainerDirective name d [c]) =
        Inr \<lparr>header = None, rows = [], footer = None\<rparr>" if "\<not> isParagraph c"
  proof -
    have "childrenLoop [c] [] = Inr []" using that by (cases c) simp_all
    moreover have "assembleLoop [] 0 g = Inr g" for g
      by (subst assembleLoop.simps) simp
    ultimately show ?thesis by (simp add: parseGlossNode_def)
  qed
  have c: "parseGlossNode (ContainerDirective name d cs) =
     parseGlossNode (ContainerDirective name d (filter isParagraph cs))"
    by (simp add: parseGlossNode_def childrenLoop_filter)
  show ?thesis using a b c by blast
qed

theorem only_paragraphs_contribute_witness:
  "\<not> isParagraph (OtherNode 7 [Paragraph None [Text (js ''| quoted'')]]) \<and>
   parseGlossNode (ContainerDirective ''gloss'' None
     ([Paragraph None [Text (js ''The dog'')]] @
      [OtherNode 7 [Paragraph None [Text (js ''| quoted'')]]] @
      [Paragraph None [Text (js ''= a'')]])) =
     Inr \<lparr>header = None,
          rows = [\<lparr>type = TextRow, words = [[Text (js ''The'')], [Text (js ''dog'')]]\<rparr>,
                  \<lparr>type = GlossRow, words = [[Text (js ''a'')]]\<rparr>],
          footer = None\<rparr> \<and>
   parseGlossNode (ContainerDirective ''gloss'' None
     [OtherNode 7 [Paragraph None [Text (js ''| quoted'')]]]) =
     Inr \<lparr>header = None, rows = [], footer = None\<rparr>"
proof -
  have e: "parseGlossNode (ContainerDirective ''gloss'' None
     ([Paragraph None [Text (js ''The dog'')]] @ [Paragraph None [Text (js ''= a'')]])) =
     Inr \<lparr>header = None,
          rows = [\<lparr>type = TextRow, words = [[Text (js ''The'')], [Text (js ''dog'')]]\<rparr>,
                  \<lparr>type = GlossRow, words = [[Text (js ''a'')]]\<rparr>],
          footer = None\<rparr>"
    by (simp add: js_def extract_defs gloss_defs assembleLoop.simps)
  have n: "\<not> isParagraph (OtherNode 7 [Paragraph None [Text (js ''| quoted'')]])" by simp
  show ?thesis
    using e n only_paragraphs_contribute [of "OtherNode 7 [Paragraph None [Text (js ''| quoted'')]]"
        "''gloss''" None "[Paragraph None [Text (js ''The dog'')]]"
        "[Paragraph None [Text (js ''= a'')]]" "[]"]
    by simp
qed

subsection \<open>Errors of parseGlossNode and the traversal\<close>

lemma assembleLoop_Inl:
  "assembleLoop lines 0 g = Inl err \<Longrightarrow> err = Error structuralMessage"
proof (cases "\<exists>j. 0 \<le> j \<and> j < length lines \<and> isMeta (lines ! j) \<and> j \<noteq> 0 \<and> j \<noteq> length lines - 1")
  case True
  assume "assembleLoop lines 0 g = Inl err"
  then show ?thesis using assembleLoop_error [OF True, of g] by simp
next
  case False
  assume a: "assembleLoop lines 0 g = Inl err"
  have "\<forall>j. 0 \<le> j \<and> j < length lines \<and> isMeta (lines ! j) \<longrightarrow> j = 0 \<or> j = length lines - 1"
    using False by blast
  from assembleLoop_ok [OF this, of g] show ?thesis using a by simp
qed

lemma parseGlossNode_Inl:
  "parseGlossNode nd = Inl err \<Longrightarrow> err = Error structuralMessage"
proof -
  assume a: "parseGlossNode nd = Inl err"
  obtain lines where l: "childrenLoop (node_children nd) [] = Inr lines"
    using childrenLoop_total by blast
  show ?thesis using a assembleLoop_Inl unfolding parseGlossNode_def l by simp
qed

lemma parseGlossNode_interior:
  assumes "childrenLoop cs [] = Inr lines" "0 < j" "j + 1 < length lines" "isMeta (lines ! j)"
  shows "parseGlossNode (ContainerDirective name d cs) = Inl (Error structuralMessage)"
proof -
  have "\<exists>j. 0 \<le> j \<and> j < length lines \<and> isMeta (lines ! j) \<and> j \<noteq> 0 \<and> j \<noteq> length lines - 1"
    using assms(2-4) by (intro exI [of _ j]) auto
  from assembleLoop_error [OF this] show ?thesis
    by (simp add: parseGlossNode_def assms(1))
qed

lemma visit_failing_block:
  assumes "parseGlossNode (ContainerDirective ''gloss'' d cs) = Inl err"
  shows "visitNode fail (ContainerDirective ''gloss'' d cs) file =
     (Some (case fst (fail structuralMessage (ContainerDirective ''gloss'' d cs) file) of
              Some thrown \<Rightarrow> thrown | None \<Rightarrow> TypeError),
      ContainerDirective ''gloss'' d cs,
      snd (fail structuralMessage (ContainerDirective ''gloss'' d cs) file))"
proof -
  have e: "err = Error structuralMessage" using assms by (rule parseGlossNode_Inl)
  show ?thesis
    using assms unfolding e
    by (cases "fail structuralMessage (ContainerDirective ''gloss'' d cs) file")
      (auto simp: glossVisitor_def split: option.splits)
qed

lemma visitChildren_append:
  "visitChildren fail pre fl = (None, pre', fl1) \<Longrightarrow>
   visitChildren fail (pre @ rest) fl =
     (case visitChildren fail rest fl1 of (e, rest', fl2) \<Rightarrow> (e, pre' @ rest', fl2))"
proof (induction pre arbitrary: fl pre')
  case Nil
  then show ?case by (auto split: prod.splits)
next
  case (Cons c cs)
  obtain e c' f' where v: "visitNode fail c fl = (e, c', f')" by (cases "visitNode fail c fl")
  show ?case
  proof (cases e)
    case (Some x)
    then show ?thesis using Cons.prems v by simp
  next
    case None
    obtain e2 cs' f2 where w: "visitChildren fail cs f' = (e2, cs', f2)"
      by (cases "visitChildren fail cs f'")
    have "e2 = None" "pre' = c' # cs'" "f2 = fl1"
      using Cons.prems v None w by simp_all
    then show ?thesis using Cons.IH [of f' cs'] v None w by (auto split: prod.splits)
  qed
qed


lemma visit_failing_block_vfile:
  assumes "parseGlossNode (ContainerDirective ''gloss'' d cs) = Inl err"
  shows "visitNode vfile_fail (ContainerDirective ''gloss'' d cs) file =
     (Some (VFileMessage (structuralFailure (ContainerDirective ''gloss'' d cs))),
      ContainerDirective ''gloss'' d cs,
      file @ [structuralFailure (ContainerDirective ''gloss'' d cs)])"
  using visit_failing_block [OF assms, of vfile_fail "file"]
  by (simp add: vfile_fail_def structuralFailure_def Let_def)

text \<open>The error of a node passes through every enclosing node to the root.\<close>

lemma visit_wrap:
  "traversedWrapper w \<Longrightarrow>
   visitNode fail (wrap w cs) fl =
     (case visitChildren fail cs fl of (e, cs', fl') \<Rightarrow> (e, wrap w cs', fl'))"
  by (cases w) simp_all

lemma visitChildren_append_throw:
  "visitChildren fail pre fl = (Some e, pre', fl1) \<Longrightarrow>
   visitChildren fail (pre @ rest) fl = (Some e, pre' @ rest, fl1)"
proof (induction pre arbitrary: fl pre')
  case Nil
  then show ?case by simp
next
  case (Cons c cs)
  obtain e1 c' f' where v: "visitNode fail c fl = (e1, c', f')" by (cases "visitNode fail c fl")
  show ?case
  proof (cases e1)
    case (Some x)
    then show ?thesis using Cons.prems v by auto
  next
    case None
    obtain e2 cs' f2 where w: "visitChildren fail cs f' = (e2, cs', f2)"
      by (cases "visitChildren fail cs f'")
    have "e2 = Some e" "pre' = c' # cs'" "f2 = fl1"
      using Cons.prems v None w by simp_all
    then show ?thesis using Cons.IH [of f' cs'] v None w by simp
  qed
qed

lemma visitBefore_frames:
  "visitBefore fail fs fl = Some (fs', fl1) \<Longrightarrow>
   map frameWrapper fs' = map frameWrapper fs \<and> map frameAfter fs' = map frameAfter fs"
proof (induction fs arbitrary: fl fs')
  case Nil
  then show ?case by simp
next
  case (Cons f fs)
  obtain w before after where f: "f = Frame w before after" by (cases f)
  show ?case using Cons.prems Cons.IH unfolding f
    by (auto split: prod.splits option.splits)
qed

lemma visit_plug:
  "list_all traversedFrame fs \<Longrightarrow> visitBefore fail fs fl = Some (fs', fl1) \<Longrightarrow>
   visitNode fail blk fl1 = (Some e, blk', fl2) \<Longrightarrow>
   visitNode fail (plug fs blk) fl = (Some e, plug fs' blk', fl2)"
proof (induction fs arbitrary: fl fs')
  case Nil
  then show ?case by simp
next
  case (Cons f fs)
  obtain w before after where f: "f = Frame w before after" by (cases f)
  have rest: "list_all traversedFrame fs" using Cons.prems(1) by simp
  have "traversedFrame f" using Cons.prems(1) by simp
  then have tw: "traversedWrapper w" by (simp add: f traversedFrame_def)
  obtain eo before' fla where vb: "visitChildren fail before fl = (eo, before', fla)"
    by (cases "visitChildren fail before fl")
  have eo: "eo = None" using Cons.prems(2) vb by (cases eo) (simp_all add: f)
  obtain fs'' where inner: "visitBefore fail fs fla = Some (fs'', fl1)"
    and fs': "fs' = Frame w before' after # fs''"
    using Cons.prems(2) vb eo by (auto simp: f split: option.splits)
  have ih: "visitNode fail (plug fs blk) fla = (Some e, plug fs'' blk', fl2)"
    using Cons.IH [OF rest inner Cons.prems(3)] .
  have "visitChildren fail (before @ plug fs blk # after) fl =
          (Some e, before' @ plug fs'' blk' # after, fl2)"
    using visitChildren_append [of fail before fl before' fla "plug fs blk # after"] vb eo ih
    by simp
  then show ?case by (simp add: f fs' visit_wrap [OF tw])
qed

lemma visit_plug_throws:
  "list_all traversedFrame fs \<Longrightarrow>
   (\<And>fl'. \<exists>e blk' fl2. visitNode fail blk fl' = (Some e, blk', fl2)) \<Longrightarrow>
   \<exists>e t' fl2. visitNode fail (plug fs blk) fl = (Some e, t', fl2)"
proof (induction fs arbitrary: fl)
  case Nil
  then show ?case by simp
next
  case (Cons f fs)
  obtain w before after where f: "f = Frame w before after" by (cases f)
  have rest: "list_all traversedFrame fs" using Cons.prems(1) by simp
  have "traversedFrame f" using Cons.prems(1) by simp
  then have tw: "traversedWrapper w" by (simp add: f traversedFrame_def)
  obtain eo before' fla where vb: "visitChildren fail before fl = (eo, before', fla)"
    by (cases "visitChildren fail before fl")
  have "\<exists>e cs' fl2. visitChildren fail (before @ plug fs blk # after) fl = (Some e, cs', fl2)"
  proof (cases eo)
    case (Some x)
    then show ?thesis using visitChildren_append_throw [of fail before fl x before' fla] vb by simp
  next
    case None
    from Cons.IH [OF rest Cons.prems(2), of fla] obtain e t' fl2 where
      "visitNode fail (plug fs blk) fla = (Some e, t', fl2)" by blast
    then show ?thesis
      using visitChildren_append [of fail before fl before' fla "plug fs blk # after"] vb None
      by simp
  qed
  then show ?case by (auto simp: f visit_wrap [OF tw])
qed

text \<open>
  Claim C1, as the code has it. When the classified lines of a gloss block have a meta
  line at an index strictly between the first and the last, parseGlossNode throws and
  builds no gloss. remarkGloss catches the error and calls \<^verbatim>\<open>file.fail\<close> with the
  message and the block; whatever \<^verbatim>\<open>file.fail\<close> does, the visitor throws (what
  \<^verbatim>\<open>file.fail\<close> throws, or a TypeError on the unassigned parse result when it
  returns). The exception leaves the traversal of the whole document: wherever the block
  stands in the tree (at any depth, under nodes that the traversal enters, that is, not
  inside another gloss block), remarkGloss on the document throws. When the nodes before
  the block are visited without a throw, what remarkGloss throws is what the visitor
  throws at the block, and the tree it leaves has those nodes as their visits made them
  and the block and everything after it, on every level, as they were. With
  \<^verbatim>\<open>file.fail\<close> of vfile the transform throws the fatal message that it added to the
  file.
\<close>

theorem structural_error_stops_traversal:
  "childrenLoop cs [] = Inr lines \<and> 0 < j \<and> j + 1 < length lines \<and> isMeta (lines ! j) \<longrightarrow>
     parseGlossNode (ContainerDirective ''gloss'' d cs) = Inl (Error structuralMessage) \<and>
     (visitChildren fail before file = (None, before', file1) \<longrightarrow>
        visitChildren fail (before @ ContainerDirective ''gloss'' d cs # after) file =
          (Some (case fst (fail structuralMessage (ContainerDirective ''gloss'' d cs) file1) of
                   Some thrown \<Rightarrow> thrown | None \<Rightarrow> TypeError),
           before' @ ContainerDirective ''gloss'' d cs # after,
           snd (fail structuralMessage (ContainerDirective ''gloss'' d cs) file1))) \<and>
     remarkGloss vfile_fail (Root (ContainerDirective ''gloss'' d cs # after)) file =
       (Some (VFileMessage (structuralFailure (ContainerDirective ''gloss'' d cs))),
        Root (ContainerDirective ''gloss'' d cs # after),
        file @ [structuralFailure (ContainerDirective ''gloss'' d cs)]) \<and>
     (list_all traversedFrame fs \<longrightarrow>
        (\<exists>thrown tree' file'.
           remarkGloss fail (plug fs (ContainerDirective ''gloss'' d cs)) file =
             (Some thrown, tree', file'))) \<and>
     (list_all traversedFrame fs \<and> visitBefore fail fs file = Some (fs', file2) \<longrightarrow>
        remarkGloss fail (plug fs (ContainerDirective ''gloss'' d cs)) file =
          (Some (case fst (fail structuralMessage (ContainerDirective ''gloss'' d cs) file2) of
                   Some thrown \<Rightarrow> thrown | None \<Rightarrow> TypeError),
           plug fs' (ContainerDirective ''gloss'' d cs),
           snd (fail structuralMessage (ContainerDirective ''gloss'' d cs) file2)) \<and>
        map frameWrapper fs' = map frameWrapper fs \<and>
        map frameAfter fs' = map frameAfter fs)"
proof (intro impI)
  assume h: "childrenLoop cs [] = Inr lines \<and> 0 < j \<and> j + 1 < length lines \<and> isMeta (lines ! j)"
  let ?blk = "ContainerDirective ''gloss'' d cs"
  let ?thrown = "\<lambda>fl. case fst (fail structuralMessage ?blk fl) of
                   Some thrown \<Rightarrow> thrown | None \<Rightarrow> TypeError"
  have p: "parseGlossNode ?blk = Inl (Error structuralMessage)"
    using h parseGlossNode_interior [of cs lines j "''gloss''" d] by blast
  have blk: "visitNode fail ?blk fl = (Some (?thrown fl), ?blk, snd (fail structuralMessage ?blk fl))"
    for fl
    using visit_failing_block [OF p, of fail fl] .
  have a: "visitChildren fail (before @ ?blk # after) file =
          (Some (?thrown file1), before' @ ?blk # after, snd (fail structuralMessage ?blk file1))"
    if "visitChildren fail before file = (None, before', file1)"
    using visitChildren_append [OF that, of "?blk # after"] blk [of file1] by simp
  have b: "remarkGloss vfile_fail (Root (?blk # after)) file =
       (Some (VFileMessage (structuralFailure ?blk)), Root (?blk # after),
        file @ [structuralFailure ?blk])"
    using visit_failing_block_vfile [OF p, of "file"] by (simp add: remarkGloss_def)
  have c: "\<exists>thrown tree' file'. remarkGloss fail (plug fs ?blk) file = (Some thrown, tree', file')"
    if "list_all traversedFrame fs"
    unfolding remarkGloss_def
  proof (rule visit_plug_throws [OF that])
    fix fl'
    show "\<exists>e blk' fl2. visitNode fail ?blk fl' = (Some e, blk', fl2)"
      using blk [of fl'] by blast
  qed
  have d: "remarkGloss fail (plug fs ?blk) file =
          (Some (?thrown file2), plug fs' ?blk, snd (fail structuralMessage ?blk file2)) \<and>
        map frameWrapper fs' = map frameWrapper fs \<and> map frameAfter fs' = map frameAfter fs"
    if "list_all traversedFrame fs \<and> visitBefore fail fs file = Some (fs', file2)"
  proof -
    have t: "list_all traversedFrame fs" and v: "visitBefore fail fs file = Some (fs', file2)"
      using that by simp_all
    show ?thesis
      using visit_plug [OF t v blk [of file2]] visitBefore_frames [OF v]
      by (simp add: remarkGloss_def)
  qed
  show "parseGlossNode ?blk = Inl (Error structuralMessage) \<and>
     (visitChildren fail before file = (None, before', file1) \<longrightarrow>
        visitChildren fail (before @ ?blk # after) file =
          (Some (?thrown file1), before' @ ?blk # after, snd (fail structuralMessage ?blk file1))) \<and>
     remarkGloss vfile_fail (Root (?blk # after)) file =
       (Some (VFileMessage (structuralFailure ?blk)), Root (?blk # after),
        file @ [structuralFailure ?blk]) \<and>
     (list_all traversedFrame fs \<longrightarrow>
        (\<exists>thrown tree' file'. remarkGloss fail (plug fs ?blk) file = (Some thrown, tree', file'))) \<and>
     (list_all traversedFrame fs \<and> visitBefore fail fs file = Some (fs', file2) \<longrightarrow>
        remarkGloss fail (plug fs ?blk) file =
          (Some (?thrown file2), plug fs' ?blk, snd (fail structuralMessage ?blk file2)) \<and>
        map frameWrapper fs' = map frameWrapper fs \<and>
        map frameAfter fs' = map frameAfter fs)"
    using p a b c d by blast
qed

lemma badBlock_lines:
  "childrenLoop (node_children badBlock) [] =
     Inr [RowLine \<lparr>type = TextRow, words = [[Text (js ''The'')], [Text (js ''dog'')]]\<rparr>,
          MetaLine [Text (js ''misplaced'')],
          RowLine \<lparr>type = GlossRow, words = [[Text (js ''a'')]]\<rparr>]"
  by (simp add: badBlock_def js_def extract_defs gloss_defs)

lemma goodBlock_visit: "visitNode fail goodBlock file = (None, goodFigure, file)"
  by (simp add: goodBlock_def goodFigure_def glossVisitor_def js_def extract_defs gloss_defs
      assembleLoop.simps upt_rec)

theorem structural_error_stops_traversal_witness:
  "childrenLoop (node_children badBlock) [] =
     Inr [RowLine \<lparr>type = TextRow, words = [[Text (js ''The'')], [Text (js ''dog'')]]\<rparr>,
          MetaLine [Text (js ''misplaced'')],
          RowLine \<lparr>type = GlossRow, words = [[Text (js ''a'')]]\<rparr>] \<and>
   visitChildren vfile_fail [goodBlock] [] = (None, [goodFigure], []) \<and>
   parseGlossNode badBlock = Inl (Error structuralMessage) \<and>
   visitChildren vfile_fail ([goodBlock] @ badBlock # [goodBlock]) [] =
     (Some (VFileMessage (structuralFailure badBlock)), [goodFigure] @ badBlock # [goodBlock],
      [structuralFailure badBlock]) \<and>
   list_all traversedFrame [Frame WRoot [goodBlock] [goodBlock], Frame (WOther 3) [] [goodBlock]] \<and>
   visitBefore vfile_fail [Frame WRoot [goodBlock] [goodBlock], Frame (WOther 3) [] [goodBlock]] [] =
     Some ([Frame WRoot [goodFigure] [goodBlock], Frame (WOther 3) [] [goodBlock]], []) \<and>
   remarkGloss vfile_fail (Root [goodBlock, OtherNode 3 [badBlock, goodBlock], goodBlock]) [] =
     (Some (VFileMessage (structuralFailure badBlock)),
      Root [goodFigure, OtherNode 3 [badBlock, goodBlock], goodBlock],
      [structuralFailure badBlock])"
proof -
  have v: "visitChildren vfile_fail [goodBlock] [] = (None, [goodFigure], [])"
    by (simp add: goodBlock_visit)
  have f: "vfile_fail structuralMessage badBlock [] =
      (Some (VFileMessage (structuralFailure badBlock)), [structuralFailure badBlock])"
    by (simp add: vfile_fail_def structuralFailure_def Let_def)
  have t: "list_all traversedFrame
      [Frame WRoot [goodBlock] [goodBlock], Frame (WOther 3) [] [goodBlock]]"
    by (simp add: traversedFrame_def)
  have b: "visitBefore vfile_fail
      [Frame WRoot [goodBlock] [goodBlock], Frame (WOther 3) [] [goodBlock]] [] =
     Some ([Frame WRoot [goodFigure] [goodBlock], Frame (WOther 3) [] [goodBlock]], [])"
    by (simp add: goodBlock_visit)
  show ?thesis
    using badBlock_lines v f t b
      structural_error_stops_traversal [of
        "[Paragraph None [Text (js ''The dog'' @ [10] @ js ''| misplaced'' @ [10] @ js ''= a'')]]"
        "[RowLine \<lparr>type = TextRow, words = [[Text (js ''The'')], [Text (js ''dog'')]]\<rparr>,
          MetaLine [Text (js ''misplaced'')],
          RowLine \<lparr>type = GlossRow, words = [[Text (js ''a'')]]\<rparr>]"
        1 None vfile_fail "[goodBlock]" "[]" "[goodFigure]" "[]" "[goodBlock]"
        "[Frame WRoot [goodBlock] [goodBlock], Frame (WOther 3) [] [goodBlock]]"
        "[Frame WRoot [goodFigure] [goodBlock], Frame (WOther 3) [] [goodBlock]]" "[]"]
    by (simp add: badBlock_def)
qed

theorem failure_is_fatal_counterexample:
  "remarkGloss vfile_fail (Root [badBlock, goodBlock]) [] =
     (Some (VFileMessage (structuralFailure badBlock)), Root [badBlock, goodBlock],
      [structuralFailure badBlock]) \<and>
   fatal (structuralFailure badBlock) \<and>
   remarkGloss returning_fail (Root [badBlock, goodBlock]) [] =
     (Some TypeError, Root [badBlock, goodBlock],
      [\<lparr>reason = structuralMessage, place = badBlock, fatal = False\<rparr>]) \<and>
   remarkGloss vfile_fail (Root [goodBlock]) [] = (None, Root [goodFigure], []) \<and>
   goodFigure \<noteq> goodBlock"
proof -
  have p: "parseGlossNode badBlock = Inl (Error structuralMessage)"
    by (simp add: badBlock_def js_def extract_defs gloss_defs assembleLoop.simps)
  have b: "visitNode fail badBlock fl =
     (Some (case fst (fail structuralMessage badBlock fl) of
              Some thrown \<Rightarrow> thrown | None \<Rightarrow> TypeError),
      badBlock, snd (fail structuralMessage badBlock fl))" for fail fl
    using p
      visit_failing_block [of None
        "[Paragraph None [Text (js ''The dog'' @ [10] @ js ''| misplaced'' @ [10] @ js ''= a'')]]"
        "Error structuralMessage" fail fl]
    by (simp add: badBlock_def)
  show ?thesis
    by (simp add: remarkGloss_def b goodBlock_visit vfile_fail_def returning_fail_def
        structuralFailure_def Let_def)
      (simp add: goodFigure_def goodBlock_def)
qed


text \<open>
  Claim C6, as the code has it. Every error of parseGlossNode is the Error with the one
  fixed message, whatever the index of the offending line. The visitor passes that message
  and the node of the gloss block to \<^verbatim>\<open>file.fail\<close>, so with vfile the message that is
  recorded and thrown has the fixed message as its reason and the block as its place.
\<close>

theorem structural_error_fixed_message:
  "(parseGlossNode nd = Inl err \<longrightarrow> err = Error structuralMessage \<and> message err = structuralMessage) \<and>
   (parseGlossNode (ContainerDirective ''gloss'' d cs) = Inl err \<longrightarrow>
      visitNode fail (ContainerDirective ''gloss'' d cs) file =
        (Some (case fst (fail structuralMessage (ContainerDirective ''gloss'' d cs) file) of
                 Some thrown \<Rightarrow> thrown | None \<Rightarrow> TypeError),
         ContainerDirective ''gloss'' d cs,
         snd (fail structuralMessage (ContainerDirective ''gloss'' d cs) file)) \<and>
      vfile_fail structuralMessage (ContainerDirective ''gloss'' d cs) file =
        (Some (VFileMessage (structuralFailure (ContainerDirective ''gloss'' d cs))),
         file @ [structuralFailure (ContainerDirective ''gloss'' d cs)]) \<and>
      place (structuralFailure (ContainerDirective ''gloss'' d cs)) =
        ContainerDirective ''gloss'' d cs \<and>
      reason (structuralFailure (ContainerDirective ''gloss'' d cs)) = structuralMessage)"
proof -
  have a: "err = Error structuralMessage \<and> message err = structuralMessage"
    if "parseGlossNode nd = Inl err"
    using parseGlossNode_Inl [OF that] by simp
  have b: "visitNode fail (ContainerDirective ''gloss'' d cs) file =
        (Some (case fst (fail structuralMessage (ContainerDirective ''gloss'' d cs) file) of
                 Some thrown \<Rightarrow> thrown | None \<Rightarrow> TypeError),
         ContainerDirective ''gloss'' d cs,
         snd (fail structuralMessage (ContainerDirective ''gloss'' d cs) file))"
    if "parseGlossNode (ContainerDirective ''gloss'' d cs) = Inl err"
    using that by (rule visit_failing_block)
  have c: "vfile_fail structuralMessage (ContainerDirective ''gloss'' d cs) file =
        (Some (VFileMessage (structuralFailure (ContainerDirective ''gloss'' d cs))),
         file @ [structuralFailure (ContainerDirective ''gloss'' d cs)])"
    by (simp add: vfile_fail_def structuralFailure_def Let_def)
  show ?thesis using a b c by (simp add: structuralFailure_def)
qed

lemma badBlock2_lines:
  "childrenLoop (node_children badBlock2) [] =
     Inr [RowLine \<lparr>type = TextRow, words = [[Text (js ''The'')], [Text (js ''dog'')]]\<rparr>,
          RowLine \<lparr>type = TransliterationRow, words = [[Text (js ''le'')]]\<rparr>,
          MetaLine [Text (js ''misplaced'')],
          RowLine \<lparr>type = GlossRow, words = [[Text (js ''a'')]]\<rparr>]"
  by (simp add: badBlock2_def js_def extract_defs gloss_defs)

lemma badBlock_error: "parseGlossNode badBlock = Inl (Error structuralMessage)"
  by (simp add: parseGlossNode_def badBlock_lines assembleLoop.simps)

lemma badBlock2_error: "parseGlossNode badBlock2 = Inl (Error structuralMessage)"
  by (simp add: parseGlossNode_def badBlock2_lines assembleLoop.simps)

theorem structural_error_fixed_message_witness:
  "parseGlossNode badBlock2 = Inl (Error structuralMessage) \<and>
   message (Error structuralMessage) = structuralMessage \<and>
   visitNode vfile_fail badBlock2 [] =
     (Some (VFileMessage (structuralFailure badBlock2)), badBlock2, [structuralFailure badBlock2]) \<and>
   place (structuralFailure badBlock2) = badBlock2"
  using badBlock2_error
    structural_error_fixed_message [of badBlock2 "Error structuralMessage" None
      "[Paragraph None
          [Text (js ''The dog'' @ [10] @ js ''/ le'' @ [10] @ js ''| misplaced'' @ [10] @ js ''= a'')]]"
      vfile_fail "[]"]
  by (simp add: badBlock2_def)

theorem error_names_position_counterexample:
  "childrenLoop (node_children badBlock) [] =
     Inr [RowLine \<lparr>type = TextRow, words = [[Text (js ''The'')], [Text (js ''dog'')]]\<rparr>,
          MetaLine [Text (js ''misplaced'')],
          RowLine \<lparr>type = GlossRow, words = [[Text (js ''a'')]]\<rparr>] \<and>
   childrenLoop (node_children badBlock2) [] =
     Inr [RowLine \<lparr>type = TextRow, words = [[Text (js ''The'')], [Text (js ''dog'')]]\<rparr>,
          RowLine \<lparr>type = TransliterationRow, words = [[Text (js ''le'')]]\<rparr>,
          MetaLine [Text (js ''misplaced'')],
          RowLine \<lparr>type = GlossRow, words = [[Text (js ''a'')]]\<rparr>] \<and>
   parseGlossNode badBlock = Inl (Error structuralMessage) \<and>
   parseGlossNode badBlock2 = Inl (Error structuralMessage) \<and>
   remarkGloss vfile_fail (Root [goodBlock, badBlock2]) [] =
     (Some (VFileMessage (structuralFailure badBlock2)), Root [goodFigure, badBlock2],
      [structuralFailure badBlock2]) \<and>
   place (structuralFailure badBlock2) = badBlock2 \<and>
   reason (structuralFailure badBlock2) = structuralMessage"
proof -
  have v: "visitNode vfile_fail badBlock2 fl =
     (Some (VFileMessage (structuralFailure badBlock2)), badBlock2, fl @ [structuralFailure badBlock2])"
    for fl
    using badBlock2_error
      visit_failing_block_vfile [of None
        "[Paragraph None
          [Text (js ''The dog'' @ [10] @ js ''/ le'' @ [10] @ js ''| misplaced'' @ [10] @ js ''= a'')]]"
        "Error structuralMessage" fl]
    by (simp add: badBlock2_def)
  show ?thesis
    by (simp add: badBlock_lines badBlock2_lines badBlock_error badBlock2_error remarkGloss_def
        goodBlock_visit v structuralFailure_def)
qed

end
